theory Spec2Isabelle
  imports Main "HOL-Library.Char_ord" "HOL-Library.List_Lexorder" "HOL-Library.AList"
begin

section \<open>Byte strings and the string library\<close>

text \<open>
  A Go \<open>string\<close> is a sequence of bytes; it is modelled as a \<open>char list\<close>, one \<open>char\<close>
  per byte, and \<open>length\<close> is Go's \<open>len\<close>.  Text outside ASCII appears as its UTF-8 bytes.
  The functions of package \<open>strings\<close> that the indexer calls are written out below.
\<close>

definition HasPrefix :: "string \<Rightarrow> string \<Rightarrow> bool" where
  "HasPrefix s p = (take (length p) s = p)"

definition HasSuffix :: "string \<Rightarrow> string \<Rightarrow> bool" where
  "HasSuffix s p = (length p \<le> length s \<and> drop (length s - length p) s = p)"

definition TrimPrefix :: "string \<Rightarrow> string \<Rightarrow> string" where
  "TrimPrefix s p = (if HasPrefix s p then drop (length p) s else s)"

fun Contains :: "string \<Rightarrow> string \<Rightarrow> bool" where
  "Contains [] sub = (sub = [])"
| "Contains (x # xs) sub = (HasPrefix (x # xs) sub \<or> Contains xs sub)"

text \<open>
  \<open>strings.Split\<close> with a one-byte separator (the indexer splits on the newline and on the
  path separator only): the pieces between the occurrences, always at least one piece.
\<close>

fun SplitByte :: "string \<Rightarrow> char \<Rightarrow> string list" where
  "SplitByte [] sep = [[]]"
| "SplitByte (x # xs) sep =
     (if x = sep then [] # SplitByte xs sep
      else (case SplitByte xs sep of
              [] \<Rightarrow> [[x]]
            | w # ws \<Rightarrow> (x # w) # ws))"

fun Join :: "string list \<Rightarrow> string \<Rightarrow> string" where
  "Join [] sep = []"
| "Join [x] sep = x"
| "Join (x # y # ys) sep = x @ sep @ Join (y # ys) sep"

subsection \<open>White space\<close>

text \<open>
  \<open>unicode.IsSpace\<close> holds of the six ASCII characters tab, newline, vertical tab, form
  feed, carriage return and space, and of U+0085, U+00A0, U+1680, U+2000 to U+200A, U+2028,
  U+2029, U+202F, U+205F and U+3000.  A decoded rune is one of these only where the bytes
  are exactly its UTF-8 encoding, and no encoding below starts at a continuation byte, so
  trimming and splitting on white space can be done on the bytes.
\<close>

definition space_encodings :: "string list" where
  "space_encodings =
    [[CHR 0x09], [CHR 0x0A], [CHR 0x0B], [CHR 0x0C], [CHR 0x0D], [CHR 0x20],
     [CHR 0xC2, CHR 0x85], [CHR 0xC2, CHR 0xA0],
     [CHR 0xE1, CHR 0x9A, CHR 0x80],
     [CHR 0xE2, CHR 0x80, CHR 0x80], [CHR 0xE2, CHR 0x80, CHR 0x81],
     [CHR 0xE2, CHR 0x80, CHR 0x82], [CHR 0xE2, CHR 0x80, CHR 0x83],
     [CHR 0xE2, CHR 0x80, CHR 0x84], [CHR 0xE2, CHR 0x80, CHR 0x85],
     [CHR 0xE2, CHR 0x80, CHR 0x86], [CHR 0xE2, CHR 0x80, CHR 0x87],
     [CHR 0xE2, CHR 0x80, CHR 0x88], [CHR 0xE2, CHR 0x80, CHR 0x89],
     [CHR 0xE2, CHR 0x80, CHR 0x8A],
     [CHR 0xE2, CHR 0x80, CHR 0xA8], [CHR 0xE2, CHR 0x80, CHR 0xA9],
     [CHR 0xE2, CHR 0x80, CHR 0xAF], [CHR 0xE2, CHR 0x81, CHR 0x9F],
     [CHR 0xE3, CHR 0x80, CHR 0x80]]"

text \<open>The width in bytes of the white-space rune at the head of the string, 0 if none.\<close>

definition space_width :: "string \<Rightarrow> nat" where
  "space_width s = (case List.find (HasPrefix s) space_encodings of
                      None \<Rightarrow> 0 | Some e \<Rightarrow> length e)"

text \<open>The same at the end of the string, as \<open>utf8.DecodeLastRune\<close> sees it.\<close>

definition space_width_last :: "string \<Rightarrow> nat" where
  "space_width_last s = (case List.find (HasSuffix s) space_encodings of
                           None \<Rightarrow> 0 | Some e \<Rightarrow> length e)"

function TrimLeftSpace :: "string \<Rightarrow> string" where
  "TrimLeftSpace s =
     (if space_width s = 0 \<or> s = [] then s else TrimLeftSpace (drop (space_width s) s))"
  by pat_completeness auto
termination
  by (relation "measure length") auto

function TrimRightSpace :: "string \<Rightarrow> string" where
  "TrimRightSpace s =
     (if space_width_last s = 0 \<or> s = [] then s
      else TrimRightSpace (take (length s - space_width_last s) s))"
  by pat_completeness auto
termination
  by (relation "measure length") auto

definition TrimSpace :: "string \<Rightarrow> string" where
  "TrimSpace s = TrimRightSpace (TrimLeftSpace s)"

text \<open>
  \<open>strings.Fields\<close>: the maximal runs of bytes between white-space runes; \<open>cur\<close> is the
  field being read.
\<close>

function FieldsFrom :: "string \<Rightarrow> string \<Rightarrow> string list" where
  "FieldsFrom cur s =
     (if s = [] then (if cur = [] then [] else [cur])
      else if space_width s = 0 then FieldsFrom (cur @ [hd s]) (tl s)
      else (if cur = [] then [] else [cur]) @ FieldsFrom [] (drop (space_width s) s))"
  by pat_completeness auto
termination
  by (relation "measure (\<lambda>(cur, s). length s)") auto

definition Fields :: "string \<Rightarrow> string list" where
  "Fields s = FieldsFrom [] s"

subsection \<open>Lower case\<close>

definition isASCII :: "string \<Rightarrow> bool" where
  "isASCII s = (\<forall>c \<in> set s. (of_char c :: nat) < 128)"

definition isUpperByte :: "char \<Rightarrow> bool" where
  "isUpperByte c = (c \<in> set ''ABCDEFGHIJKLMNOPQRSTUVWXYZ'')"

definition lowerByte :: "char \<Rightarrow> char" where
  "lowerByte c = (if isUpperByte c then char_of (of_char c + (32::nat)) else c)"

text \<open>
  \<open>strings.ToLower\<close> lowers an all-ASCII string byte by byte, and hands any other string
  to \<open>strings.Map(unicode.ToLower, s)\<close>, which works from the case tables of package
  \<open>unicode\<close>.  Those tables are not part of this repository: that call is the parameter
  \<open>ul\<close> of the model, and of every function that lowers text.
\<close>

definition ToLower :: "(string \<Rightarrow> string) \<Rightarrow> string \<Rightarrow> string" where
  "ToLower ul s = (if isASCII s then map lowerByte s else ul s)"


declare TrimLeftSpace.simps [simp del] TrimRightSpace.simps [simp del] FieldsFrom.simps [simp del]

subsection \<open>Ranging over a string\<close>

text \<open>
  A Go \<open>for i, r := range s\<close> decodes one UTF-8 rune per step.  \<open>rune_width s\<close> is the
  number of bytes of the well-formed encoding at the head of \<open>s\<close> (the table of package
  \<open>utf8\<close>), and 0 where the bytes are not one: the loop then yields U+FFFD and moves one
  byte on.
\<close>

definition byte_in :: "char \<Rightarrow> nat \<Rightarrow> nat \<Rightarrow> bool" where
  "byte_in c lo hi = (lo \<le> (of_char c :: nat) \<and> (of_char c :: nat) \<le> hi)"

definition cont_bytes :: "string \<Rightarrow> nat \<Rightarrow> nat \<Rightarrow> nat \<Rightarrow> bool" where
  "cont_bytes s n lo hi =
     (n \<le> length s \<and> byte_in (s ! 1) lo hi \<and>
      (\<forall>i \<in> set [2 ..< n]. byte_in (s ! i) 0x80 0xBF))"

definition rune_width :: "string \<Rightarrow> nat" where
  "rune_width s =
     (case s of [] \<Rightarrow> 0
      | c # _ \<Rightarrow>
         if byte_in c 0x00 0x7F then 1
         else if byte_in c 0xC2 0xDF then (if cont_bytes s 2 0x80 0xBF then 2 else 0)
         else if byte_in c 0xE0 0xE0 then (if cont_bytes s 3 0xA0 0xBF then 3 else 0)
         else if byte_in c 0xE1 0xEC then (if cont_bytes s 3 0x80 0xBF then 3 else 0)
         else if byte_in c 0xED 0xED then (if cont_bytes s 3 0x80 0x9F then 3 else 0)
         else if byte_in c 0xEE 0xEF then (if cont_bytes s 3 0x80 0xBF then 3 else 0)
         else if byte_in c 0xF0 0xF0 then (if cont_bytes s 4 0x90 0xBF then 4 else 0)
         else if byte_in c 0xF1 0xF3 then (if cont_bytes s 4 0x80 0xBF then 4 else 0)
         else if byte_in c 0xF4 0xF4 then (if cont_bytes s 4 0x80 0x8F then 4 else 0)
         else 0)"

text \<open>The bytes that \<open>WriteRune\<close> writes for U+FFFD.\<close>

definition RuneError :: string where
  "RuneError = [CHR 0xEF, CHR 0xBF, CHR 0xBD]"

text \<open>
  The runes of a string in order, each as the bytes \<open>WriteRune\<close> would write for it: a
  well-formed rune as its own bytes, anything else as U+FFFD.
\<close>

function range_runes :: "string \<Rightarrow> string list" where
  "range_runes s =
     (if s = [] then []
      else if rune_width s = 0 then RuneError # range_runes (tl s)
      else take (rune_width s) s # range_runes (drop (rune_width s) s))"
  by pat_completeness auto
termination
  by (relation "measure length") auto

declare range_runes.simps [simp del]

section \<open>Regular expressions\<close>

text \<open>
  Package \<open>regexp\<close> returns the match a backtracking matcher finds first: the leftmost
  start, an alternation trying its branches from the left, a repetition taking as many
  rounds as it can.  The matcher below is that search, over the part of the syntax the
  indexer's patterns use.  The text is split at the current position into the bytes
  already passed (reversed) and the bytes ahead; a continuation receives the position
  after a piece and the groups captured so far.  All the patterns' classes and literals
  are ASCII or complements of one ASCII byte, so matching bytes and matching runes agree.
\<close>

datatype re =
    Cls "char \<Rightarrow> bool"
  | Eps
  | Bol
  | Seq re re
  | Alt re re
  | Star re
  | Grp nat re

type_synonym caps = "nat \<Rightarrow> string option"

function rmatch ::
  "re \<Rightarrow> string \<Rightarrow> string \<Rightarrow> caps \<Rightarrow> (string \<Rightarrow> string \<Rightarrow> caps \<Rightarrow> 'a option) \<Rightarrow> 'a option"
where
  "rmatch (Cls P) pre s c k =
     (case s of [] \<Rightarrow> None | x # xs \<Rightarrow> if P x then k (x # pre) xs c else None)"
| "rmatch Eps pre s c k = k pre s c"
| "rmatch Bol pre s c k =
     (if pre = [] \<or> hd pre = CHR 0x0A then k pre s c else None)"
| "rmatch (Seq a b) pre s c k =
     rmatch a pre s c (\<lambda>pre' s' c'. rmatch b pre' s' c' k)"
| "rmatch (Alt a b) pre s c k =
     (case rmatch a pre s c k of Some m \<Rightarrow> Some m | None \<Rightarrow> rmatch b pre s c k)"
| "rmatch (Star r) pre s c k =
     (case rmatch r pre s c
             (\<lambda>pre' s' c'. if length s' < length s then rmatch (Star r) pre' s' c' k else None)
      of Some m \<Rightarrow> Some m | None \<Rightarrow> k pre s c)"
| "rmatch (Grp i r) pre s c k =
     rmatch r pre s c
       (\<lambda>pre' s' c'. k pre' s' (c'(i \<mapsto> rev (take (length pre' - length pre) pre'))))"
  by pat_completeness auto
termination
  by (relation "measures [\<lambda>(r, pre, s, c, k). size r, \<lambda>(r, pre, s, c, k). length s]") auto

text \<open>\<open>x+\<close>, \<open>x?\<close>, a literal string, a sequence and an alternation of several pieces.\<close>

definition Plus :: "re \<Rightarrow> re" where
  "Plus r = Seq r (Star r)"

definition Opt :: "re \<Rightarrow> re" where
  "Opt r = Alt r Eps"

definition Chr :: "char \<Rightarrow> re" where
  "Chr a = Cls (\<lambda>c. c = a)"

fun Str :: "string \<Rightarrow> re" where
  "Str [] = Eps"
| "Str [a] = Chr a"
| "Str (a # as) = Seq (Chr a) (Str as)"

fun Seqs :: "re list \<Rightarrow> re" where
  "Seqs [] = Eps"
| "Seqs [r] = r"
| "Seqs (r # rs) = Seq r (Seqs rs)"

fun Alts :: "re list \<Rightarrow> re" where
  "Alts [] = Cls (\<lambda>c. False)"
| "Alts [r] = r"
| "Alts (r # rs) = Alt r (Alts rs)"

text \<open>
  A match: where it starts, the bytes it took, the bytes after it, and the groups.
  \<open>match_here\<close> matches at the current position only; \<open>find_from\<close> tries each start
  from the left.
\<close>

record rmatched =
  m_start :: nat
  m_text :: string
  m_rest :: string
  m_groups :: caps

definition match_here :: "re \<Rightarrow> string \<Rightarrow> string \<Rightarrow> rmatched option" where
  "match_here r pre s =
     rmatch r pre s Map.empty
       (\<lambda>pre' s' c'. Some \<lparr>m_start = length pre,
                           m_text = rev (take (length pre' - length pre) pre'),
                           m_rest = s', m_groups = c'\<rparr>)"

fun find_from :: "re \<Rightarrow> string \<Rightarrow> string \<Rightarrow> rmatched option" where
  "find_from r pre [] = match_here r pre []"
| "find_from r pre (x # xs) =
     (case match_here r pre (x # xs) of
        Some m \<Rightarrow> Some m
      | None \<Rightarrow> find_from r (x # pre) xs)"

text \<open>
  \<open>FindStringSubmatch\<close>: \<open>None\<close> for Go's \<open>nil\<close>, else the match; \<open>submatch m i\<close> is Go's
  \<open>match[i]\<close> for a group \<open>i \<ge> 1\<close>, the empty string for a group that took no part.
\<close>

definition FindStringSubmatch :: "re \<Rightarrow> string \<Rightarrow> rmatched option" where
  "FindStringSubmatch r s = find_from r [] s"

definition submatch :: "rmatched \<Rightarrow> nat \<Rightarrow> string" where
  "submatch m i = (case m_groups m i of None \<Rightarrow> [] | Some t \<Rightarrow> t)"

subsection \<open>The character classes\<close>

definition isDigitByte :: "char \<Rightarrow> bool" where
  "isDigitByte c = (c \<in> set ''0123456789'')"

definition isLowerByte :: "char \<Rightarrow> bool" where
  "isLowerByte c = (c \<in> set ''abcdefghijklmnopqrstuvwxyz'')"

definition cls_w :: "char \<Rightarrow> bool" where
  "cls_w c = (isDigitByte c \<or> isUpperByte c \<or> isLowerByte c \<or> c = CHR ''_'')"

definition cls_s :: "char \<Rightarrow> bool" where
  "cls_s c = (c \<in> {CHR 0x09, CHR 0x0A, CHR 0x0C, CHR 0x0D, CHR 0x20})"


declare rmatch.simps [simp del]

section \<open>The parser\<close>

record FunctionInfo =
  FileName :: string
  FilePath :: string
  RelativePath :: string
  Namespace :: string
  ClassName :: string
  FuncName :: string
  Comments :: "string list"
  Signature :: string
  IsUnityEvent :: bool
  IsCoroutine :: bool
  Attributes :: "string list"
  Keywords :: "string list"

subsection \<open>\<open>NewUnityParser\<close>: the event names and the patterns\<close>

definition unityEvents :: "string \<rightharpoonup> bool" where
  "unityEvents = map_of
    [(''Awake'', True), (''Start'', True), (''Update'', True), (''FixedUpdate'', True),
     (''LateUpdate'', True), (''OnEnable'', True), (''OnDisable'', True), (''OnDestroy'', True),
     (''OnCollisionEnter'', True), (''OnCollisionExit'', True), (''OnCollisionStay'', True),
     (''OnTriggerEnter'', True), (''OnTriggerExit'', True), (''OnTriggerStay'', True),
     (''OnMouseDown'', True), (''OnMouseUp'', True), (''OnMouseEnter'', True),
     (''OnMouseExit'', True),
     (''OnGUI'', True), (''OnApplicationQuit'', True), (''OnApplicationPause'', True),
     (''OnBecameVisible'', True), (''OnBecameInvisible'', True)]"

text \<open>Reading a Go \<open>map[string]bool\<close>: a missing key reads as \<open>false\<close>.\<close>

definition map_index :: "(string \<rightharpoonup> bool) \<Rightarrow> string \<Rightarrow> bool" where
  "map_index m k = (case m k of None \<Rightarrow> False | Some b \<Rightarrow> b)"

text \<open>
  \<^verbatim>\<open>(?m)^\s*(?:\[[\w\s,()=.]+\]\s*)*(public|private|protected|internal|static|\s)+([\w<>\[\]]+)\s+(\w+)\s*\(([^)]*)\)\<close>
\<close>

definition cls_attr_body :: "char \<Rightarrow> bool" where
  "cls_attr_body c = (cls_w c \<or> cls_s c \<or> c \<in> set '',()=.'')"

definition cls_type :: "char \<Rightarrow> bool" where
  "cls_type c = (cls_w c \<or> c \<in> set ''<>[]'')"

definition functionRegex :: re where
  "functionRegex = Seqs
     [Bol,
      Star (Cls cls_s),
      Star (Seqs [Chr CHR ''['', Plus (Cls cls_attr_body), Chr CHR '']'', Star (Cls cls_s)]),
      Plus (Grp 1 (Alts [Str ''public'', Str ''private'', Str ''protected'',
                         Str ''internal'', Str ''static'', Cls cls_s])),
      Grp 2 (Plus (Cls cls_type)),
      Plus (Cls cls_s),
      Grp 3 (Plus (Cls cls_w)),
      Star (Cls cls_s),
      Chr CHR ''('',
      Grp 4 (Star (Cls (\<lambda>c. c \<noteq> CHR '')''))),
      Chr CHR '')'']"

text \<open>\<^verbatim>\<open>namespace\s+([\w.]+)\<close>\<close>

definition namespaceRegex :: re where
  "namespaceRegex = Seqs
     [Str ''namespace'', Plus (Cls cls_s), Grp 1 (Plus (Cls (\<lambda>c. cls_w c \<or> c = CHR ''.'')))]"

text \<open>
  \<^verbatim>\<open>(?:public|private|internal)?\s*(?:sealed|abstract)?\s*(?:partial)?\s*class\s+(\w+)\<close>
\<close>

definition classRegex :: re where
  "classRegex = Seqs
     [Opt (Alts [Str ''public'', Str ''private'', Str ''internal'']),
      Star (Cls cls_s),
      Opt (Alts [Str ''sealed'', Str ''abstract'']),
      Star (Cls cls_s),
      Opt (Str ''partial''),
      Star (Cls cls_s),
      Str ''class'',
      Plus (Cls cls_s),
      Grp 1 (Plus (Cls cls_w))]"

text \<open>\<^verbatim>\<open>\[(\w+)(?:\([^)]*\))?\]\<close>\<close>

definition attributeRegex :: re where
  "attributeRegex = Seqs
     [Chr CHR ''['',
      Grp 1 (Plus (Cls cls_w)),
      Opt (Seqs [Chr CHR ''('', Star (Cls (\<lambda>c. c \<noteq> CHR '')'')), Chr CHR '')'']),
      Chr CHR '']'']"

subsection \<open>\<open>cleanXMLTags\<close>\<close>

text \<open>
  \<open>ReplaceAllString\<close>: the matches from the left, none overlapping, each replaced by the
  template, in which \<open>$1\<close> stands for the first group.  A template is given parsed, as a
  list of literal pieces and group references.  None of the four patterns below matches
  the empty string; were a match empty, the template is put in and the scan moves one
  byte on.
\<close>

datatype tpiece = TLit string | TGrp nat

fun expand :: "tpiece list \<Rightarrow> rmatched \<Rightarrow> string" where
  "expand [] m = []"
| "expand (TLit t # ps) m = t @ expand ps m"
| "expand (TGrp i # ps) m = submatch m i @ expand ps m"

function replace_from :: "re \<Rightarrow> tpiece list \<Rightarrow> string \<Rightarrow> string \<Rightarrow> string" where
  "replace_from r repl pre s =
     (case match_here r pre s of
        Some m \<Rightarrow>
          if length (m_rest m) < length s
          then expand repl m @ replace_from r repl (rev (m_text m) @ pre) (m_rest m)
          else expand repl m @
               (case s of [] \<Rightarrow> [] | x # xs \<Rightarrow> x # replace_from r repl (x # pre) xs)
      | None \<Rightarrow>
          (case s of [] \<Rightarrow> [] | x # xs \<Rightarrow> x # replace_from r repl (x # pre) xs))"
  by pat_completeness auto
termination
  by (relation "measure (\<lambda>(r, repl, pre, s). length s)") auto

declare replace_from.simps [simp del]

definition ReplaceAllString :: "re \<Rightarrow> string \<Rightarrow> tpiece list \<Rightarrow> string" where
  "ReplaceAllString r src repl = replace_from r repl [] src"

definition param_label :: string where
  "param_label = [CHR 0xE5, CHR 0x8F, CHR 0x82, CHR 0xE6, CHR 0x95, CHR 0xB0, CHR 0x3A,
    CHR 0x20]"

definition returns_label :: string where
  "returns_label = [CHR 0xE8, CHR 0xBF, CHR 0x94, CHR 0xE5, CHR 0x9B, CHR 0x9E, CHR 0x3A,
    CHR 0x20]"

definition cleanXMLTags :: "string \<Rightarrow> string" where
  "cleanXMLTags s =
     (let s1 = ReplaceAllString (Str ''<summary>'') s [];
          s2 = ReplaceAllString (Str ''</summary>'') s1 [];
          s3 = ReplaceAllString
                 (Seqs [Str ''<param name='', Chr (CHR 0x22),
                        Plus (Cls (\<lambda>c. c \<noteq> CHR 0x22)), Chr (CHR 0x22),
                          Chr CHR ''>'',
                        Grp 1 (Star (Cls (\<lambda>c. c \<noteq> CHR ''<''))), Str ''</param>''])
                 s2 [TLit param_label, TGrp 1];
          s4 = ReplaceAllString
                 (Seqs [Str ''<returns>'',
                        Grp 1 (Star (Cls (\<lambda>c. c \<noteq> CHR ''<''))), Str ''</returns>''])
                 s3 [TLit returns_label, TGrp 1]
      in TrimSpace s4)"


subsection \<open>\<open>splitCamelCase\<close> and \<open>extractKeywords\<close>\<close>

text \<open>
  The loop of \<open>splitCamelCase\<close> over the runes of the name.  \<open>later\<close> is \<open>i > 0\<close>; a rune
  lies between \<open>'A'\<close> and \<open>'Z'\<close> exactly when it is written as one such byte.
\<close>

definition is_upper_rune :: "string \<Rightarrow> bool" where
  "is_upper_rune r = (case r of [c] \<Rightarrow> isUpperByte c | _ \<Rightarrow> False)"

fun camel_loop ::
  "(string \<Rightarrow> string) \<Rightarrow> bool \<Rightarrow> string list \<Rightarrow> string list \<Rightarrow> string \<Rightarrow> string list \<times> string"
where
  "camel_loop ul later [] words currentWord = (words, currentWord)"
| "camel_loop ul later (r # rs) words currentWord =
     (if later \<and> is_upper_rune r \<and> currentWord \<noteq> []
      then camel_loop ul True rs (words @ [ToLower ul currentWord]) ([] @ r)
      else camel_loop ul True rs words (currentWord @ r))"

definition splitCamelCase :: "(string \<Rightarrow> string) \<Rightarrow> string \<Rightarrow> string list" where
  "splitCamelCase ul s =
     (case camel_loop ul False (range_runes s) [] [] of
        (words, currentWord) \<Rightarrow>
          if currentWord \<noteq> [] then words @ [ToLower ul currentWord] else words)"

text \<open>The loop over the comment words: a word of more than one byte is kept, lowered.\<close>

fun comment_words_loop ::
  "(string \<Rightarrow> string) \<Rightarrow> string list \<Rightarrow> string list \<Rightarrow> string list"
where
  "comment_words_loop ul [] keywords = keywords"
| "comment_words_loop ul (word # words) keywords =
     (if length word > 1
      then comment_words_loop ul words (keywords @ [ToLower ul word])
      else comment_words_loop ul words keywords)"

text \<open>The loop that removes repeats, with its \<open>keywordMap\<close> and \<open>uniqueKeywords\<close>.\<close>

fun unique_loop ::
  "string list \<Rightarrow> (string \<rightharpoonup> bool) \<Rightarrow> string list \<Rightarrow> string list"
where
  "unique_loop [] keywordMap uniqueKeywords = uniqueKeywords"
| "unique_loop (kw # kws) keywordMap uniqueKeywords =
     (if \<not> map_index keywordMap kw \<and> kw \<noteq> []
      then unique_loop kws (keywordMap(kw \<mapsto> True)) (uniqueKeywords @ [kw])
      else unique_loop kws keywordMap uniqueKeywords)"

definition extractKeywords ::
  "(string \<Rightarrow> string) \<Rightarrow> string \<Rightarrow> string list \<Rightarrow> string list"
where
  "extractKeywords ul funcName comments =
     (let funcWords = splitCamelCase ul funcName;
          keywords = [] @ funcWords;
          commentText = Join comments '' '';
          words = Fields commentText;
          keywords = comment_words_loop ul words keywords
      in unique_loop keywords Map.empty [])"

subsection \<open>\<open>ParseFile\<close>\<close>

text \<open>
  \<open>filepath.Base\<close> with \<open>/\<close> as the separator: the last element of the path, trailing
  slashes dropped first.
\<close>

definition path_Base :: "string \<Rightarrow> string" where
  "path_Base path =
     (if path = [] then ''.''
      else let p1 = rev (dropWhile (\<lambda>c. c = CHR ''/'') (rev path));
               p2 = rev (takeWhile (\<lambda>c. c \<noteq> CHR ''/'') (rev p1))
           in if p2 = [] then ''/'' else p2)"

text \<open>
  \<open>filepath.Rel\<close> and \<open>filepath.Join\<close> are taken as they come from the library: the two
  fields of \<open>paths\<close>.  (\<open>ParseFile\<close> drops the error of \<open>Rel\<close>, whose result is then empty.)
\<close>

record paths =
  path_Rel :: "string \<Rightarrow> string \<Rightarrow> string"
  path_Join :: "string \<Rightarrow> string \<Rightarrow> string"

text \<open>What stays fixed while the lines of one file are read.\<close>

record file_ctx =
  cx_filePath :: string
  cx_relativePath :: string
  cx_namespace :: string
  cx_class :: string

text \<open>What the loop over the lines changes.\<close>

record scan_state =
  functions_acc :: "FunctionInfo list"
  currentComments :: "string list"
  currentAttributes :: "string list"

definition scan_init :: scan_state where
  "scan_init = \<lparr>functions_acc = [], currentComments = [], currentAttributes = []\<rparr>"

text \<open>One round of the loop, in the order of the source.\<close>

definition scan_line ::
  "(string \<Rightarrow> string) \<Rightarrow> file_ctx \<Rightarrow> scan_state \<Rightarrow> string \<Rightarrow> scan_state"
where
  "scan_line ul cx st line =
     (let trimmed = TrimSpace line in
      if HasPrefix trimmed ''['' \<and> HasSuffix trimmed '']'' then
        (case FindStringSubmatch attributeRegex trimmed of
           Some m \<Rightarrow> st\<lparr>currentAttributes := currentAttributes st @ [submatch m 1]\<rparr>
         | None \<Rightarrow> st)
      else if HasPrefix trimmed ''///'' then
        (let comment = cleanXMLTags (TrimSpace (TrimPrefix trimmed ''///''))
         in if comment \<noteq> [] then st\<lparr>currentComments := currentComments st @ [comment]\<rparr>
            else st)
      else if HasPrefix trimmed ''//'' then
        (let comment = TrimSpace (TrimPrefix trimmed ''//'')
         in if comment \<noteq> [] \<and> \<not> HasPrefix comment ''/''
            then st\<lparr>currentComments := currentComments st @ [comment]\<rparr>
            else st)
      else
        (case FindStringSubmatch functionRegex line of
           Some m \<Rightarrow>
             (let funcName = submatch m 3;
                  returnType = submatch m 2;
                  isCoroutine = Contains returnType ''IEnumerator'';
                  isUnityEvent = map_index unityEvents funcName;
                  keywords = extractKeywords ul funcName (currentComments st);
                  funcInfo = \<lparr>FileName = path_Base (cx_filePath cx),
                              FilePath = cx_filePath cx,
                              RelativePath = cx_relativePath cx,
                              Namespace = cx_namespace cx,
                              ClassName = cx_class cx,
                              FuncName = funcName,
                              Comments = currentComments st,
                              Signature = TrimSpace line,
                              IsUnityEvent = isUnityEvent,
                              IsCoroutine = isCoroutine,
                              Attributes = currentAttributes st,
                              Keywords = keywords\<rparr>
              in \<lparr>functions_acc = functions_acc st @ [funcInfo],
                  currentComments = [], currentAttributes = []\<rparr>)
         | None \<Rightarrow>
             if trimmed \<noteq> [] \<and> \<not> HasPrefix trimmed ''//'' \<and> \<not> HasPrefix trimmed ''[''
             then (if \<not> Contains trimmed ''{'' \<and> \<not> Contains trimmed ''}''
                   then st\<lparr>currentComments := [], currentAttributes := []\<rparr>
                   else st)
             else st))"

fun scan_lines ::
  "(string \<Rightarrow> string) \<Rightarrow> file_ctx \<Rightarrow> scan_state \<Rightarrow> string list \<Rightarrow> scan_state"
where
  "scan_lines ul cx st [] = st"
| "scan_lines ul cx st (line # lines) = scan_lines ul cx (scan_line ul cx st line) lines"

datatype error = Errorf string | OSError string

text \<open>
  \<open>ParseFile\<close>.  \<open>rd\<close> is what \<open>os.ReadFile(filePath)\<close> returns: an error, or the bytes of
  the file.
\<close>

definition first_group :: "re \<Rightarrow> string \<Rightarrow> string" where
  "first_group r s = (case FindStringSubmatch r s of None \<Rightarrow> [] | Some m \<Rightarrow> submatch m 1)"

definition parse_content ::
  "(string \<Rightarrow> string) \<Rightarrow> paths \<Rightarrow> string \<Rightarrow> string \<Rightarrow> string \<Rightarrow> FunctionInfo list"
where
  "parse_content ul fp content filePath rootPath =
     (let lines = SplitByte content (CHR 0x0A);
          cx = \<lparr>cx_filePath = filePath,
                cx_relativePath = path_Rel fp rootPath filePath,
                cx_namespace = first_group namespaceRegex content,
                cx_class = first_group classRegex content\<rparr>
      in functions_acc (scan_lines ul cx scan_init lines))"

definition ParseFile ::
  "(string \<Rightarrow> string) \<Rightarrow> paths \<Rightarrow> error + string \<Rightarrow> string \<Rightarrow> string
     \<Rightarrow> error + FunctionInfo list"
where
  "ParseFile ul fp rd filePath rootPath =
     (case rd of
        Inl err \<Rightarrow> Inl err
      | Inr content \<Rightarrow> Inr (parse_content ul fp content filePath rootPath))"

subsection \<open>\<open>ScanUnityProject\<close>\<close>

text \<open>
  The tree under a path, as the walk of \<open>filepath.Walk\<close> meets it: a file (anything that
  is not a directory) with what \<open>os.ReadFile\<close> returns for it; a directory with its
  entries in the order of \<open>readDirNames\<close>, which sorts the names; a directory whose names
  cannot be read; an entry for which \<open>Lstat\<close> fails.  An error of package \<open>os\<close> is given by
  its message, and is never one of the walk's own values \<open>SkipDir\<close> and \<open>SkipAll\<close>, so the
  branches of \<open>Walk\<close> for those are left out.  The tree does not change during the scan,
  and \<open>os.Stat\<close> and \<open>os.Lstat\<close> agree on the root.
\<close>

type_synonym os_error = string

datatype fnode =
    File "os_error + string"
  | Dir "(string \<times> fnode) list"
  | DirUnreadable os_error
  | NoInfo os_error

text \<open>The text of an error, as \<open>%v\<close> prints it.\<close>

fun error_text :: "error \<Rightarrow> string" where
  "error_text (Errorf msg) = msg"
| "error_text (OSError msg) = msg"

text \<open>The error of \<open>ScanUnityProject\<close> for a missing \<open>Assets\<close> directory.\<close>

definition NotAProjectRoot :: error where
  "NotAProjectRoot = Errorf [CHR 0xE6, CHR 0x9C, CHR 0xAA, CHR 0xE6, CHR 0x89, CHR 0xBE,
    CHR 0xE5, CHR 0x88, CHR 0xB0, CHR 0x41, CHR 0x73, CHR 0x73, CHR 0x65, CHR 0x74, CHR 0x73,
    CHR 0xE7, CHR 0x9B, CHR 0xAE, CHR 0xE5, CHR 0xBD, CHR 0x95, CHR 0xEF, CHR 0xBC, CHR 0x8C,
    CHR 0xE8, CHR 0xAF, CHR 0xB7, CHR 0xE7, CHR 0xA1, CHR 0xAE, CHR 0xE8, CHR 0xAE, CHR 0xA4,
    CHR 0xE8, CHR 0xBF, CHR 0x99, CHR 0xE6, CHR 0x98, CHR 0xAF, CHR 0x55, CHR 0x6E, CHR 0x69,
    CHR 0x74, CHR 0x79, CHR 0xE9, CHR 0xA1, CHR 0xB9, CHR 0xE7, CHR 0x9B, CHR 0xAE, CHR 0xE6,
    CHR 0xA0, CHR 0xB9, CHR 0xE7, CHR 0x9B, CHR 0xAE, CHR 0xE5, CHR 0xBD, CHR 0x95]"

text \<open>The line that the walk prints for a file that \<open>ParseFile\<close> could not read.\<close>

definition warning_line :: "string \<Rightarrow> error \<Rightarrow> string" where
  "warning_line path err = 
       [CHR 0xE2, CHR 0x9A, CHR 0xA0, CHR 0xEF, CHR 0xB8, CHR 0x8F, CHR 0x20, CHR 0x20,
         CHR 0xE8, CHR 0xA7, CHR 0xA3, CHR 0xE6, CHR 0x9E, CHR 0x90, CHR 0xE5, CHR 0xA4,
         CHR 0xB1, CHR 0xE8, CHR 0xB4, CHR 0xA5, CHR 0x20] @ path @ '': '' @ error_text err
         @ [CHR 0x0A]"

text \<open>What the walk has gathered and printed so far.\<close>

record scan_acc =
  allFunctions :: "FunctionInfo list"
  printed :: "string list"

text \<open>
  The function that \<open>ScanUnityProject\<close> hands to \<open>filepath.Walk\<close>.  \<open>err\<close> is the error
  the walk passes in; the result is the error the function returns.
\<close>

definition visit ::
  "(string \<Rightarrow> string) \<Rightarrow> paths \<Rightarrow> string \<Rightarrow> string \<Rightarrow> fnode \<Rightarrow> error option \<Rightarrow> scan_acc
     \<Rightarrow> scan_acc \<times> error option"
where
  "visit ul fp projectPath path info err acc =
     (case err of
        Some e \<Rightarrow> (acc, Some e)
      | None \<Rightarrow>
          (case info of
             File rd \<Rightarrow>
               if HasSuffix path ''.cs'' then
                 (case ParseFile ul fp (case rd of Inl msg \<Rightarrow> Inl (OSError msg) | Inr c \<Rightarrow> Inr c)
                         path projectPath of
                    Inl e \<Rightarrow> (acc\<lparr>printed := printed acc @ [warning_line path e]\<rparr>, None)
                  | Inr fns \<Rightarrow> (acc\<lparr>allFunctions := allFunctions acc @ fns\<rparr>, None))
               else (acc, None)
           | _ \<Rightarrow> (acc, None)))"

text \<open>
  \<open>walk\<close> of package \<open>filepath\<close>, and its loop over the names of a directory.  Where
  \<open>Lstat\<close> fails, for the root in \<open>Walk\<close> or for a name in the loop, the function is
  called with the error and the walk returns what it returns: the equation for \<open>NoInfo\<close>.
\<close>

fun walk ::
  "(string \<Rightarrow> string) \<Rightarrow> paths \<Rightarrow> string \<Rightarrow> string \<Rightarrow> fnode \<Rightarrow> scan_acc
     \<Rightarrow> scan_acc \<times> error option"
and walk_names ::
  "(string \<Rightarrow> string) \<Rightarrow> paths \<Rightarrow> string \<Rightarrow> string \<Rightarrow> (string \<times> fnode) list \<Rightarrow> scan_acc
     \<Rightarrow> scan_acc \<times> error option"
where
  "walk ul fp projectPath path (File rd) acc = visit ul fp projectPath path (File rd) None acc"
| "walk ul fp projectPath path (DirUnreadable msg) acc =
     visit ul fp projectPath path (DirUnreadable msg) (Some (OSError msg)) acc"
| "walk ul fp projectPath path (NoInfo msg) acc =
     visit ul fp projectPath path (NoInfo msg) (Some (OSError msg)) acc"
| "walk ul fp projectPath path (Dir entries) acc =
     (case visit ul fp projectPath path (Dir entries) None acc of
        (acc', Some e) \<Rightarrow> (acc', Some e)
      | (acc', None) \<Rightarrow> walk_names ul fp projectPath path entries acc')"
| "walk_names ul fp projectPath path [] acc = (acc, None)"
| "walk_names ul fp projectPath path ((name, node) # rest) acc =
     (case walk ul fp projectPath (path_Join fp path name) node acc of
        (acc', Some e) \<Rightarrow> (acc', Some e)
      | (acc', None) \<Rightarrow> walk_names ul fp projectPath path rest acc')"

text \<open>
  \<open>ScanUnityProject\<close>.  \<open>assets\<close> is what stands at \<open>projectPath/Assets\<close>: \<open>None\<close> when
  \<open>os.Stat\<close> reports that nothing is there.  The result is the list returned, the error
  returned and the lines printed.
\<close>

record scan_result =
  scan_records :: "FunctionInfo list"
  scan_err :: "error option"
  scan_printed :: "string list"

definition ScanUnityProject ::
  "(string \<Rightarrow> string) \<Rightarrow> paths \<Rightarrow> string \<Rightarrow> fnode option \<Rightarrow> scan_result"
where
  "ScanUnityProject ul fp projectPath assets =
     (let assetsPath = path_Join fp projectPath ''Assets'' in
      case assets of
        None \<Rightarrow> \<lparr>scan_records = [], scan_err = Some NotAProjectRoot, scan_printed = []\<rparr>
      | Some node \<Rightarrow>
          (case walk ul fp projectPath assetsPath node \<lparr>allFunctions = [], printed = []\<rparr> of
             (acc, err) \<Rightarrow>
               \<lparr>scan_records = allFunctions acc, scan_err = err, scan_printed = printed acc\<rparr>))"

text \<open>The files on disk: a map from paths to contents.\<close>

type_synonym files = "string \<rightharpoonup> string"

subsection \<open>\<open>GenerateUnityMarkdown\<close>\<close>

text \<open>
  A Go map from strings, as the list of its keys with their values, each key once.
  Reading a missing key gives the zero value (\<open>nil\<close> for a slice).  A \<open>range\<close> over a map
  yields the keys in an order that Go leaves open; the two places that range over a map
  here sort the keys at once, so the model yields them in the order they were put in.
\<close>

type_synonym 'v gomap = "(string \<times> 'v) list"

definition map_get :: "FunctionInfo list gomap \<Rightarrow> string \<Rightarrow> FunctionInfo list" where
  "map_get m k = (case map_of m k of None \<Rightarrow> [] | Some v \<Rightarrow> v)"

definition map_set :: "FunctionInfo list gomap \<Rightarrow> string \<Rightarrow> FunctionInfo list \<Rightarrow> FunctionInfo list gomap" where
  "map_set m k v = AList.update k v m"

definition map_keys :: "FunctionInfo list gomap \<Rightarrow> string list" where
  "map_keys m = map fst m"

text \<open>\<open>%d\<close> of a count.\<close>

function decimal :: "nat \<Rightarrow> string" where
  "decimal n =
     (if n < 10 then [char_of (48 + n)]
      else decimal (n div 10) @ [char_of (48 + n mod 10)])"
  by pat_completeness auto
termination
  by (relation "measure id") auto

declare decimal.simps [simp del]

text \<open>\<open>strings.ReplaceAll\<close> of one byte by another.\<close>

definition ReplaceByte :: "string \<Rightarrow> char \<Rightarrow> char \<Rightarrow> string" where
  "ReplaceByte s old new = map (\<lambda>c. if c = old then new else c) s"

text \<open>The loop that counts the event functions and the coroutines.\<close>

fun count_loop :: "FunctionInfo list \<Rightarrow> nat \<Rightarrow> nat \<Rightarrow> nat \<times> nat" where
  "count_loop [] unityEventCount coroutineCount = (unityEventCount, coroutineCount)"
| "count_loop (fn # fns) unityEventCount coroutineCount =
     count_loop fns
       (if IsUnityEvent fn then unityEventCount + 1 else unityEventCount)
       (if IsCoroutine fn then coroutineCount + 1 else coroutineCount)"

definition doc_head :: "FunctionInfo list \<Rightarrow> string" where
  "doc_head fns =
     (case count_loop fns 0 0 of
        (unityEventCount, coroutineCount) \<Rightarrow>
          ''# Unity '' @ [CHR 0xE9, CHR 0xA1, CHR 0xB9, CHR 0xE7, CHR 0x9B, CHR 0xAE, CHR 0xE5,
            CHR 0x87, CHR 0xBD, CHR 0xE6, CHR 0x95, CHR 0xB0, CHR 0xE7, CHR 0xB4, CHR 0xA2,
            CHR 0xE5, CHR 0xBC, CHR 0x95, CHR 0x0A, CHR 0x0A] @
          ''> '' @ [CHR 0xF0, CHR 0x9F, CHR 0xA4, CHR 0x96] @ '' '' @ [CHR 0xE6, CHR 0x9C,
            CHR 0xAC, CHR 0xE6, CHR 0x96, CHR 0x87, CHR 0xE6, CHR 0xA1, CHR 0xA3, CHR 0xE7,
            CHR 0x94, CHR 0xB1] @ ''AI'' @ [CHR 0xE7, CHR 0xB4, CHR 0xA2, CHR 0xE5, CHR 0xBC,
            CHR 0x95, CHR 0xE5, CHR 0xB7, CHR 0xA5, CHR 0xE5, CHR 0x85, CHR 0xB7, CHR 0xE8,
            CHR 0x87, CHR 0xAA, CHR 0xE5, CHR 0x8A, CHR 0xA8, CHR 0xE7, CHR 0x94, CHR 0x9F,
            CHR 0xE6, CHR 0x88, CHR 0x90, CHR 0xEF, CHR 0xBC, CHR 0x8C, CHR 0xE7, CHR 0x94,
            CHR 0xA8, CHR 0xE4, CHR 0xBA, CHR 0x8E, CHR 0xE5, CHR 0xBF, CHR 0xAB, CHR 0xE9,
            CHR 0x80, CHR 0x9F, CHR 0xE5, CHR 0xAE, CHR 0x9A, CHR 0xE4, CHR 0xBD, CHR 0x8D,
            CHR 0xE5, CHR 0x8A, CHR 0x9F, CHR 0xE8, CHR 0x83, CHR 0xBD, CHR 0xE5, CHR 0x87,
            CHR 0xBD, CHR 0xE6, CHR 0x95, CHR 0xB0, CHR 0x0A, CHR 0x0A] @
          ''**'' @ [CHR 0xF0, CHR 0x9F, CHR 0x93, CHR 0x8A] @ '' '' @ [CHR 0xE7, CHR 0xBB,
            CHR 0x9F, CHR 0xE8, CHR 0xAE, CHR 0xA1, CHR 0xE4, CHR 0xBF, CHR 0xA1, CHR 0xE6,
            CHR 0x81, CHR 0xAF] @ ''**:'' @ [CHR 0x0A] @
          ''- '' @ [CHR 0xE6, CHR 0x80, CHR 0xBB, CHR 0xE5, CHR 0x87, CHR 0xBD, CHR 0xE6,
            CHR 0x95, CHR 0xB0, CHR 0xE6, CHR 0x95, CHR 0xB0] @ '': '' @ decimal (length fns)
            @ [CHR 0x0A] @
          ''- Unity'' @ [CHR 0xE7, CHR 0x94, CHR 0x9F, CHR 0xE5, CHR 0x91, CHR 0xBD, CHR 0xE5,
            CHR 0x91, CHR 0xA8, CHR 0xE6, CHR 0x9C, CHR 0x9F, CHR 0xE5, CHR 0x87, CHR 0xBD,
            CHR 0xE6, CHR 0x95, CHR 0xB0] @ '': '' @ decimal unityEventCount @ [CHR 0x0A] @
          ''- '' @ [CHR 0xE5, CHR 0x8D, CHR 0x8F, CHR 0xE7, CHR 0xA8, CHR 0x8B, CHR 0xE5,
            CHR 0x87, CHR 0xBD, CHR 0xE6, CHR 0x95, CHR 0xB0] @ '': '' @ decimal coroutineCount
            @ [CHR 0x0A, CHR 0x0A] @
          ''---'' @ [CHR 0x0A, CHR 0x0A] @
          ''## '' @ [CHR 0xF0, CHR 0x9F, CHR 0x94, CHR 0x8D] @ '' '' @ [CHR 0xE5, CHR 0xBF,
            CHR 0xAB, CHR 0xE9, CHR 0x80, CHR 0x9F, CHR 0xE5, CHR 0xAF, CHR 0xBC, CHR 0xE8,
            CHR 0x88, CHR 0xAA, CHR 0x0A, CHR 0x0A])"

text \<open>
  The category of a record: the first piece of its relative path, if there are two.
\<close>

definition other_category :: string where
  "other_category = [CHR 0xE5, CHR 0x85, CHR 0xB6, CHR 0xE4, CHR 0xBB, CHR 0x96]"

definition category_of :: "FunctionInfo \<Rightarrow> string" where
  "category_of fn =
     (let parts = SplitByte (RelativePath fn) (CHR ''/'')
      in if length parts > 1 then parts ! 0 else other_category)"

fun category_loop :: "FunctionInfo list \<Rightarrow> FunctionInfo list gomap \<Rightarrow> FunctionInfo list gomap" where
  "category_loop [] categoryMap = categoryMap"
| "category_loop (fn # fns) categoryMap =
     category_loop fns
       (map_set categoryMap (category_of fn) (map_get categoryMap (category_of fn) @ [fn]))"

text \<open>The navigation list, one line for each category.\<close>

definition nav_line :: "(string \<Rightarrow> string) \<Rightarrow> string \<Rightarrow> FunctionInfo list \<Rightarrow> string" where
  "nav_line ul cat catFns =
     (let anchor = ToLower ul (ReplaceByte cat (CHR '' '') (CHR ''-''))
      in ''- ['' @ [CHR 0xF0, CHR 0x9F, CHR 0x93, CHR 0x81] @ '' '' @ cat @ '' (''
        @ decimal (length catFns) @ '')](#'' @ anchor @ '')'' @ [CHR 0x0A])"

fun nav_loop ::
  "(string \<Rightarrow> string) \<Rightarrow> FunctionInfo list gomap \<Rightarrow> string list \<Rightarrow> string \<Rightarrow> string"
where
  "nav_loop ul categoryMap [] sb = sb"
| "nav_loop ul categoryMap (cat # cats) sb =
     nav_loop ul categoryMap cats (sb @ nav_line ul cat (map_get categoryMap cat))"

text \<open>The class of a record, with the label for the empty class name.\<close>

definition global_functions :: string where
  "global_functions = [CHR 0xE5, CHR 0x85, CHR 0xA8, CHR 0xE5, CHR 0xB1, CHR 0x80, CHR 0xE5,
    CHR 0x87, CHR 0xBD, CHR 0xE6, CHR 0x95, CHR 0xB0]"

definition class_label :: "FunctionInfo \<Rightarrow> string" where
  "class_label fn = (if ClassName fn = [] then global_functions else ClassName fn)"

fun class_loop :: "FunctionInfo list \<Rightarrow> FunctionInfo list gomap \<Rightarrow> FunctionInfo list gomap" where
  "class_loop [] classMap = classMap"
| "class_loop (fn # fns) classMap =
     class_loop fns
       (map_set classMap (class_label fn) (map_get classMap (class_label fn) @ [fn]))"

text \<open>What is written for one function.\<close>

fun attr_loop :: "string list \<Rightarrow> nat \<Rightarrow> string \<Rightarrow> string" where
  "attr_loop [] i sb = sb"
| "attr_loop (attr # attrs) i sb =
     attr_loop attrs (i + 1)
       ((if i > 0 then sb @ '', '' else sb) @ [CHR 0x60] @ ''['' @ attr @ '']'' @ [CHR 0x60])"

fun comment_loop :: "string list \<Rightarrow> string \<Rightarrow> string" where
  "comment_loop [] sb = sb"
| "comment_loop (comment # comments) sb =
     comment_loop comments
       (if TrimSpace comment \<noteq> [] then sb @ ''> '' @ comment @ [CHR 0x0A] else sb)"

definition write_function :: "FunctionInfo \<Rightarrow> string \<Rightarrow> string" where
  "write_function fn sb =
     (let markers = [];
          markers = (if IsUnityEvent fn then markers @ [[CHR 0xF0, CHR 0x9F, CHR 0x8E, CHR 0xAF]
            @ ''Unity'' @ [CHR 0xE4, CHR 0xBA, CHR 0x8B, CHR 0xE4, CHR 0xBB,
            CHR 0xB6]] else markers);
          markers = (if IsCoroutine fn then markers @ [[CHR 0xE2, CHR 0x8F, CHR 0xB1, CHR 0xEF,
            CHR 0xB8, CHR 0x8F, CHR 0xE5, CHR 0x8D, CHR 0x8F, CHR 0xE7, CHR 0xA8,
            CHR 0x8B]] else markers);
          markerStr = (if length markers > 0 then '' '' @ Join markers '' '' else []);
          sb = sb @ ''#### '' @ [CHR 0x60] @ FuncName fn @ [CHR 0x60] @ markerStr @ [CHR 0x0A,
            CHR 0x0A];
          sb = (if length (Attributes fn) > 0
                then attr_loop (Attributes fn) 0 (sb @ (''**'' @ [CHR 0xE7, CHR 0x89, CHR 0xB9,
                  CHR 0xE6, CHR 0x80, CHR 0xA7] @ ''**: '')) @ [CHR 0x0A, CHR 0x0A]
                else sb);
          sb = sb @ [CHR 0x60, CHR 0x60, CHR 0x60] @ ''csharp'' @ [CHR 0x0A] @ Signature fn
            @ [CHR 0x0A, CHR 0x60, CHR 0x60, CHR 0x60, CHR 0x0A, CHR 0x0A];
          sb = (if length (Comments fn) > 0
                then comment_loop (Comments fn) (sb @ (''**'' @ [CHR 0xF0, CHR 0x9F, CHR 0x93,
                  CHR 0x9D] @ '' '' @ [CHR 0xE8, CHR 0xAF, CHR 0xB4, CHR 0xE6, CHR 0x98,
                  CHR 0x8E] @ ''**:'' @ [CHR 0x0A])) @ [CHR 0x0A]
                else sb);
          sb = (if length (Keywords fn) > 0
                then (let displayKeywords = Keywords fn;
                          displayKeywords = (if length displayKeywords > 8
                                             then take 8 displayKeywords else displayKeywords)
                      in sb @ ''**'' @ [CHR 0xF0, CHR 0x9F, CHR 0x94, CHR 0x91] @ '' ''
                        @ [CHR 0xE5, CHR 0x85, CHR 0xB3, CHR 0xE9, CHR 0x94, CHR 0xAE,
                        CHR 0xE8, CHR 0xAF, CHR 0x8D] @ ''**: '' @ [CHR 0x60]
                        @ Join displayKeywords ([CHR 0x60] @ '' '' @ [CHR 0x60]) @ [CHR 0x60]
                        @ [CHR 0x0A, CHR 0x0A])
                else sb)
      in sb @ ''---'' @ [CHR 0x0A, CHR 0x0A])"

fun function_loop :: "FunctionInfo list \<Rightarrow> string \<Rightarrow> string" where
  "function_loop [] sb = sb"
| "function_loop (fn # fns) sb = function_loop fns (write_function fn sb)"

text \<open>The classes of one category, and the categories.\<close>

definition class_head :: "string \<Rightarrow> FunctionInfo list \<Rightarrow> string" where
  "class_head className classFns =
     ''### '' @ [CHR 0xF0, CHR 0x9F, CHR 0x94, CHR 0xB8] @ '' '' @ [CHR 0xE7, CHR 0xB1,
       CHR 0xBB] @ '': '' @ [CHR 0x60] @ className @ [CHR 0x60, CHR 0x0A, CHR 0x0A] @
     (if length classFns > 0
      then [CHR 0xF0, CHR 0x9F, CHR 0x93, CHR 0x84] @ '' '' @ [CHR 0xE6, CHR 0x96, CHR 0x87,
        CHR 0xE4, CHR 0xBB, CHR 0xB6] @ '': '' @ [CHR 0x60] @ RelativePath (classFns ! 0)
        @ [CHR 0x60, CHR 0x0A, CHR 0x0A]
      else [])"

fun class_section_loop :: "FunctionInfo list gomap \<Rightarrow> string list \<Rightarrow> string \<Rightarrow> string" where
  "class_section_loop classMap [] sb = sb"
| "class_section_loop classMap (className # classNames) sb =
     (let classFns = map_get classMap className;
          sb = sb @ class_head className classFns
      in class_section_loop classMap classNames (function_loop classFns sb))"

definition category_head :: "string \<Rightarrow> FunctionInfo list \<Rightarrow> string" where
  "category_head category fns =
     ''## '' @ [CHR 0xF0, CHR 0x9F, CHR 0x93, CHR 0x81] @ '' '' @ category @ [CHR 0x0A, CHR 0x0A] @
     ''> '' @ [CHR 0xE5, CHR 0x8C, CHR 0x85, CHR 0xE5, CHR 0x90, CHR 0xAB] @ '' '' @ decimal (length fns) @ '' '' @ [CHR 0xE4, CHR 0xB8, CHR 0xAA, CHR 0xE5, CHR 0x87, CHR 0xBD, CHR 0xE6, CHR 0x95, CHR 0xB0, CHR 0x0A, CHR 0x0A]"

fun category_section_loop :: "FunctionInfo list gomap \<Rightarrow> string list \<Rightarrow> string \<Rightarrow> string" where
  "category_section_loop categoryMap [] sb = sb"
| "category_section_loop categoryMap (category # categories) sb =
     (let fns = map_get categoryMap category;
          sb = sb @ category_head category fns;
          classMap = class_loop fns [];
          classNames = sort (map_keys classMap)
      in category_section_loop categoryMap categories
           (class_section_loop classMap classNames sb))"

definition doc_tail :: string where
  "doc_tail =
     ''## '' @ [CHR 0xF0, CHR 0x9F, CHR 0x92, CHR 0xA1] @ '' '' @ [CHR 0xE4, CHR 0xBD,
       CHR 0xBF, CHR 0xE7, CHR 0x94, CHR 0xA8, CHR 0xE6, CHR 0x8F, CHR 0x90, CHR 0xE7,
       CHR 0xA4, CHR 0xBA, CHR 0x0A, CHR 0x0A, CHR 0xE6, CHR 0x9C, CHR 0xAC, CHR 0xE6,
       CHR 0x96, CHR 0x87, CHR 0xE6, CHR 0xA1, CHR 0xA3, CHR 0xE6, CHR 0x94, CHR 0xAF,
       CHR 0xE6, CHR 0x8C, CHR 0x81, CHR 0xE4, CHR 0xBB, CHR 0xA5, CHR 0xE4, CHR 0xB8,
       CHR 0x8B, CHR 0xE6, CHR 0x90, CHR 0x9C, CHR 0xE7, CHR 0xB4, CHR 0xA2, CHR 0xE6,
       CHR 0x96, CHR 0xB9, CHR 0xE5, CHR 0xBC, CHR 0x8F, CHR 0xEF, CHR 0xBC, CHR 0x9A,
       CHR 0x0A, CHR 0x0A] @ ''1. **'' @ [CHR 0xE6, CHR 0x8C, CHR 0x89, CHR 0xE5, CHR 0x8A,
       CHR 0x9F, CHR 0xE8, CHR 0x83, CHR 0xBD, CHR 0xE6, CHR 0x90, CHR 0x9C, CHR 0xE7,
       CHR 0xB4, CHR 0xA2] @ ''**: '' @ [CHR 0xE4, CHR 0xBD, CHR 0xBF, CHR 0xE7, CHR 0x94,
       CHR 0xA8, CHR 0xE5, CHR 0x85, CHR 0xB3, CHR 0xE9, CHR 0x94, CHR 0xAE, CHR 0xE8,
       CHR 0xAF, CHR 0x8D, CHR 0xE5, CHR 0xA6, CHR 0x82] @ '' '' @ [CHR 0x22, CHR 0xE7,
       CHR 0xA7, CHR 0xBB, CHR 0xE5, CHR 0x8A, CHR 0xA8, CHR 0x22, CHR 0xE3, CHR 0x80,
       CHR 0x81, CHR 0x22, CHR 0xE6, CHR 0x94, CHR 0xBB, CHR 0xE5, CHR 0x87, CHR 0xBB,
       CHR 0x22, CHR 0xE3, CHR 0x80, CHR 0x81, CHR 0x22] @ ''UI'' @ [CHR 0x22] @ '' ''
       @ [CHR 0xE7, CHR 0xAD, CHR 0x89, CHR 0x0A] @ ''2. **'' @ [CHR 0xE6, CHR 0x8C, CHR 0x89,
       CHR 0xE7, CHR 0xB1, CHR 0xBB, CHR 0xE5, CHR 0x9E, CHR 0x8B, CHR 0xE6, CHR 0x90,
       CHR 0x9C, CHR 0xE7, CHR 0xB4, CHR 0xA2] @ ''**: '' @ [CHR 0xE6, CHR 0x90, CHR 0x9C,
       CHR 0xE7, CHR 0xB4, CHR 0xA2] @ '' '' @ [CHR 0x22] @ ''Unity'' @ [CHR 0xE4, CHR 0xBA,
       CHR 0x8B, CHR 0xE4, CHR 0xBB, CHR 0xB6, CHR 0x22, CHR 0xE3, CHR 0x80, CHR 0x81,
       CHR 0x22, CHR 0xE5, CHR 0x8D, CHR 0x8F, CHR 0xE7, CHR 0xA8, CHR 0x8B, CHR 0x22] @ '' ''
       @ [CHR 0xE7, CHR 0xAD, CHR 0x89, CHR 0xE6, CHR 0xA0, CHR 0x87, CHR 0xE8, CHR 0xAE,
       CHR 0xB0, CHR 0x0A] @ ''3. **'' @ [CHR 0xE6, CHR 0x8C, CHR 0x89, CHR 0xE6, CHR 0x96,
       CHR 0x87, CHR 0xE4, CHR 0xBB, CHR 0xB6, CHR 0xE8, CHR 0xB7, CHR 0xAF, CHR 0xE5,
       CHR 0xBE, CHR 0x84, CHR 0xE6, CHR 0x90, CHR 0x9C, CHR 0xE7, CHR 0xB4, CHR 0xA2]
       @ ''**: '' @ [CHR 0xE4, CHR 0xBD, CHR 0xBF, CHR 0xE7, CHR 0x94, CHR 0xA8, CHR 0xE7,
       CHR 0x9B, CHR 0xAE, CHR 0xE5, CHR 0xBD, CHR 0x95, CHR 0xE5, CHR 0x90, CHR 0x8D,
       CHR 0xE5, CHR 0xAE, CHR 0x9A, CHR 0xE4, CHR 0xBD, CHR 0x8D, CHR 0x0A] @ ''4. **''
       @ [CHR 0xE6, CHR 0x8C, CHR 0x89, CHR 0xE7, CHR 0xB1, CHR 0xBB, CHR 0xE5, CHR 0x90,
       CHR 0x8D] @ ''/'' @ [CHR 0xE5, CHR 0x87, CHR 0xBD, CHR 0xE6, CHR 0x95, CHR 0xB0,
       CHR 0xE5, CHR 0x90, CHR 0x8D, CHR 0xE6, CHR 0x90, CHR 0x9C, CHR 0xE7, CHR 0xB4, CHR 0xA2]
       @ ''**: '' @ [CHR 0xE7, CHR 0x9B, CHR 0xB4, CHR 0xE6, CHR 0x8E, CHR 0xA5, CHR 0xE6,
       CHR 0x90, CHR 0x9C, CHR 0xE7, CHR 0xB4, CHR 0xA2, CHR 0xE4, CHR 0xBB, CHR 0xA3,
       CHR 0xE7, CHR 0xA0, CHR 0x81, CHR 0xE6, CHR 0xA0, CHR 0x87, CHR 0xE8, CHR 0xAF,
       CHR 0x86, CHR 0xE7, CHR 0xAC, CHR 0xA6, CHR 0x0A, CHR 0x0A] @ ''> '' @ [CHR 0xF0,
       CHR 0x9F, CHR 0x92, CHR 0xA1] @ '' '' @ [CHR 0xE6, CHR 0x8F, CHR 0x90, CHR 0xE7,
       CHR 0xA4, CHR 0xBA] @ '': '' @ [CHR 0xE4, CHR 0xBD, CHR 0xBF, CHR 0xE7, CHR 0x94,
       CHR 0xA8] @ '' Ctrl+F '' @ [CHR 0xE5, CHR 0x9C, CHR 0xA8, CHR 0xE6, CHR 0x96, CHR 0x87,
       CHR 0xE6, CHR 0xA1, CHR 0xA3, CHR 0xE4, CHR 0xB8, CHR 0xAD, CHR 0xE6, CHR 0x90,
       CHR 0x9C, CHR 0xE7, CHR 0xB4, CHR 0xA2, CHR 0xEF, CHR 0xBC, CHR 0x8C, CHR 0xE6,
       CHR 0x88, CHR 0x96, CHR 0xE5, CHR 0xB0, CHR 0x86, CHR 0xE6, CHR 0xAD, CHR 0xA4,
       CHR 0xE6, CHR 0x96, CHR 0x87, CHR 0xE6, CHR 0xA1, CHR 0xA3, CHR 0xE6, CHR 0x8F,
       CHR 0x90, CHR 0xE4, CHR 0xBE, CHR 0x9B, CHR 0xE7, CHR 0xBB, CHR 0x99] @ ''AI''
       @ [CHR 0xE5, CHR 0x8A, CHR 0xA9, CHR 0xE6, CHR 0x89, CHR 0x8B, CHR 0xE8, CHR 0xBF,
       CHR 0x9B, CHR 0xE8, CHR 0xA1, CHR 0x8C, CHR 0xE6, CHR 0x99, CHR 0xBA, CHR 0xE8,
       CHR 0x83, CHR 0xBD, CHR 0xE6, CHR 0x9F, CHR 0xA5, CHR 0xE8, CHR 0xAF, CHR 0xA2,
       CHR 0x0A]"

text \<open>The text of the document.\<close>

definition markdown_document :: "(string \<Rightarrow> string) \<Rightarrow> FunctionInfo list \<Rightarrow> string" where
  "markdown_document ul fns =
     (let sb = doc_head fns;
          categoryMap = category_loop fns [];
          categories = sort (map_keys categoryMap);
          sb = nav_loop ul categoryMap categories sb;
          sb = sb @ [CHR 0x0A] @ ''---'' @ [CHR 0x0A, CHR 0x0A];
          sb = category_section_loop categoryMap categories sb
      in sb @ doc_tail)"

text \<open>
  \<open>GenerateUnityMarkdown\<close>: the document is handed to \<open>os.WriteFile\<close>; \<open>wr\<close> is the error
  of that call, \<open>None\<close> when the file was written.
\<close>

definition GenerateUnityMarkdown ::
  "(string \<Rightarrow> string) \<Rightarrow> FunctionInfo list \<Rightarrow> string \<Rightarrow> os_error option \<Rightarrow> files
     \<Rightarrow> error option \<times> files"
where
  "GenerateUnityMarkdown ul fns outputPath wr disk =
     (case wr of
        None \<Rightarrow> (None, disk(outputPath \<mapsto> markdown_document ul fns))
      | Some msg \<Rightarrow> (Some (OSError msg), disk))"

subsection \<open>\<open>GenerateJSON\<close>\<close>

text \<open>
  The files on disk are a map from paths to contents.  A function that may write returns
  the error (\<open>None\<close> for Go's \<open>nil\<close>) and the files as it leaves them.
\<close>


text \<open>The fields of \<open>SimpleFuncInfo\<close>, each with an \<open>S\<close> before its name.\<close>

record SimpleFuncInfo =
  SClass :: string
  SFunction :: string
  SFile :: string
  SComments :: "string list"
  SKeywords :: "string list"
  SIsUnity :: bool

fun simplify_loop :: "FunctionInfo list \<Rightarrow> SimpleFuncInfo list \<Rightarrow> SimpleFuncInfo list" where
  "simplify_loop [] simplified = simplified"
| "simplify_loop (fn # fns) simplified =
     simplify_loop fns
       (simplified @ [\<lparr>SClass = ClassName fn, SFunction = FuncName fn, SFile = RelativePath fn,
                        SComments = Comments fn, SKeywords = Keywords fn,
                        SIsUnity = IsUnityEvent fn\<rparr>])"

definition GenerateJSON :: "FunctionInfo list \<Rightarrow> string \<Rightarrow> files \<Rightarrow> error option \<times> files" where
  "GenerateJSON fns outputPath disk =
     (let simplified = simplify_loop fns [] in (None, disk))"

section \<open>Notions used in the statements\<close>

text \<open>
  A list without its empty strings and without the later copies of a string, in the order
  of the first copies; \<open>seen\<close> holds the strings met so far.
\<close>

fun first_seen :: "string list \<Rightarrow> string list \<Rightarrow> string list" where
  "first_seen seen [] = []"
| "first_seen seen (x # xs) =
     (if x \<in> set seen \<or> x = [] then first_seen seen xs else x # first_seen (x # seen) xs)"

text \<open>The words of the comment lines, and the keywords before repeats are removed.\<close>

definition comment_tokens :: "string list \<Rightarrow> string list" where
  "comment_tokens comments = Fields (Join comments '' '')"

definition keyword_candidates ::
  "(string \<Rightarrow> string) \<Rightarrow> string \<Rightarrow> string list \<Rightarrow> string list"
where
  "keyword_candidates ul funcName comments =
     splitCamelCase ul funcName @
     map (ToLower ul) (filter (\<lambda>w. 1 < length w) (comment_tokens comments))"

text \<open>
  What a pattern matches, apart from the order of the search: \<open>matches r pre w\<close> holds
  when \<open>w\<close> is matched by \<open>r\<close> at a position with the bytes \<open>pre\<close> (reversed) before it.
\<close>

inductive matches :: "re \<Rightarrow> string \<Rightarrow> string \<Rightarrow> bool" where
  m_Cls: "P x \<Longrightarrow> matches (Cls P) pre [x]"
| m_Eps: "matches Eps pre []"
| m_Bol: "pre = [] \<or> hd pre = CHR 0x0A \<Longrightarrow> matches Bol pre []"
| m_Seq: "matches a pre u \<Longrightarrow> matches b (rev u @ pre) v \<Longrightarrow> matches (Seq a b) pre (u @ v)"
| m_AltL: "matches a pre w \<Longrightarrow> matches (Alt a b) pre w"
| m_AltR: "matches b pre w \<Longrightarrow> matches (Alt a b) pre w"
| m_StarNil: "matches (Star r) pre []"
| m_StarStep: "matches r pre u \<Longrightarrow> matches (Star r) (rev u @ pre) v \<Longrightarrow>
               matches (Star r) pre (u @ v)"
| m_Grp: "matches r pre w \<Longrightarrow> matches (Grp i r) pre w"

inductive_cases matches_ClsE: "matches (Cls P) pre w"
inductive_cases matches_EpsE: "matches Eps pre w"
inductive_cases matches_BolE: "matches Bol pre w"
inductive_cases matches_SeqE: "matches (Seq a b) pre w"
inductive_cases matches_AltE: "matches (Alt a b) pre w"
inductive_cases matches_GrpE: "matches (Grp i r) pre w"

text \<open>
  The first byte of a string after its leading pattern white space (\<open>\s\<close>) is a byte
  that a type name can start with.
\<close>

definition type_after_space :: "string \<Rightarrow> bool" where
  "type_after_space z = (dropWhile cls_s z \<noteq> [] \<and> cls_type (hd (dropWhile cls_s z)))"

text \<open>The kinds of line that the loop of \<open>ParseFile\<close> tells apart.\<close>

definition bracket_line :: "string \<Rightarrow> bool" where
  "bracket_line l = (HasPrefix (TrimSpace l) ''['' \<and> HasSuffix (TrimSpace l) '']'')"

definition comment_line :: "string \<Rightarrow> bool" where
  "comment_line l = HasPrefix (TrimSpace l) ''//''"

definition pattern_line :: "string \<Rightarrow> bool" where
  "pattern_line l = (FindStringSubmatch functionRegex l \<noteq> None)"

definition declaration_line :: "string \<Rightarrow> bool" where
  "declaration_line l = (\<not> bracket_line l \<and> \<not> comment_line l \<and> pattern_line l)"

definition blank_line :: "string \<Rightarrow> bool" where
  "blank_line l = (TrimSpace l = [])"

definition brace_only_line :: "string \<Rightarrow> bool" where
  "brace_only_line l = (TrimSpace l \<noteq> [] \<and> set (TrimSpace l) \<subseteq> {CHR ''{'', CHR ''}''})"

text \<open>The bytes that occur in the encodings of the white-space runes.\<close>

definition space_bytes :: "char set" where
  "space_bytes = set (concat space_encodings)"

text \<open>
  A line with text on it that does not begin with a comment marker or a bracket and has
  no brace on it.
\<close>

definition plain_statement_line :: "string \<Rightarrow> bool" where
  "plain_statement_line l =
     (TrimSpace l \<noteq> [] \<and> \<not> HasPrefix (TrimSpace l) ''//'' \<and> \<not> HasPrefix (TrimSpace l) ''[''
      \<and> CHR ''{'' \<notin> set (TrimSpace l) \<and> CHR ''}'' \<notin> set (TrimSpace l))"

text \<open>The record that \<open>ParseFile\<close> makes for a line matched as \<open>m\<close>.\<close>

definition record_of ::
  "(string \<Rightarrow> string) \<Rightarrow> file_ctx \<Rightarrow> scan_state \<Rightarrow> string \<Rightarrow> rmatched \<Rightarrow> FunctionInfo"
where
  "record_of ul cx st line m =
     \<lparr>FileName = path_Base (cx_filePath cx),
      FilePath = cx_filePath cx,
      RelativePath = cx_relativePath cx,
      Namespace = cx_namespace cx,
      ClassName = cx_class cx,
      FuncName = submatch m 3,
      Comments = currentComments st,
      Signature = TrimSpace line,
      IsUnityEvent = map_index unityEvents (submatch m 3),
      IsCoroutine = Contains (submatch m 2) ''IEnumerator'',
      Attributes = currentAttributes st,
      Keywords = extractKeywords ul (submatch m 3) (currentComments st)\<rparr>"

text \<open>The event names of \<open>NewUnityParser\<close>, as a set.\<close>

definition unity_event_names :: "string set" where
  "unity_event_names =
    {''Awake'', ''Start'', ''Update'', ''FixedUpdate'', ''LateUpdate'', ''OnEnable'',
     ''OnDisable'', ''OnDestroy'', ''OnCollisionEnter'', ''OnCollisionExit'',
     ''OnCollisionStay'', ''OnTriggerEnter'', ''OnTriggerExit'', ''OnTriggerStay'',
     ''OnMouseDown'', ''OnMouseUp'', ''OnMouseEnter'', ''OnMouseExit'', ''OnGUI'',
     ''OnApplicationQuit'', ''OnApplicationPause'', ''OnBecameVisible'',
     ''OnBecameInvisible''}"

text \<open>A white-space encoding is one pattern white-space byte, or starts with a byte that
  is neither pattern white space nor the start of a type name.\<close>

definition leading_ok :: "string \<Rightarrow> bool" where
  "leading_ok e = (case e of [] \<Rightarrow> False
                   | c # t \<Rightarrow> (t = [] \<and> cls_s c) \<or> (\<not> cls_s c \<and> \<not> cls_type c))"

text \<open>The fixed values used where a statement is checked on a concrete file.\<close>

definition example_paths :: paths where
  "example_paths = \<lparr>path_Rel = (\<lambda>basepath targpath. targpath),
                     path_Join = (\<lambda>dir name. dir @ ''/'' @ name)\<rparr>"

definition example_ctx :: file_ctx where
  "example_ctx = \<lparr>cx_filePath = ''Assets/Player.cs'', cx_relativePath = ''Assets/Player.cs'',
                   cx_namespace = [], cx_class = ''Player''\<rparr>"

text \<open>
  The first failure that a walk of the tree meets, if any: a directory whose names cannot
  be read, or an entry without file information.
\<close>

fun first_failure :: "fnode \<Rightarrow> os_error option"
and first_failure_list :: "(string \<times> fnode) list \<Rightarrow> os_error option"
where
  "first_failure (File rd) = None"
| "first_failure (Dir entries) = first_failure_list entries"
| "first_failure (DirUnreadable msg) = Some msg"
| "first_failure (NoInfo msg) = Some msg"
| "first_failure_list [] = None"
| "first_failure_list ((name, node) # rest) =
     (case first_failure node of Some msg \<Rightarrow> Some msg | None \<Rightarrow> first_failure_list rest)"

text \<open>The files of the tree in the order of the walk, each with its path.\<close>

fun files_under :: "paths \<Rightarrow> string \<Rightarrow> fnode \<Rightarrow> (string \<times> (os_error + string)) list"
and files_under_list ::
  "paths \<Rightarrow> string \<Rightarrow> (string \<times> fnode) list \<Rightarrow> (string \<times> (os_error + string)) list"
where
  "files_under fp path (File rd) = [(path, rd)]"
| "files_under fp path (Dir entries) = files_under_list fp path entries"
| "files_under fp path (DirUnreadable msg) = []"
| "files_under fp path (NoInfo msg) = []"
| "files_under_list fp path [] = []"
| "files_under_list fp path ((name, node) # rest) =
     files_under fp (path_Join fp path name) node @ files_under_list fp path rest"

text \<open>What one file gives to the scan: its records, and the warning printed for it.\<close>

definition file_records ::
  "(string \<Rightarrow> string) \<Rightarrow> paths \<Rightarrow> string \<Rightarrow> string \<times> (os_error + string) \<Rightarrow> FunctionInfo list"
where
  "file_records ul fp projectPath f =
     (case f of (path, rd) \<Rightarrow>
        if HasSuffix path ''.cs''
        then (case rd of Inl msg \<Rightarrow> [] | Inr c \<Rightarrow> parse_content ul fp c path projectPath)
        else [])"

definition file_warnings :: "string \<times> (os_error + string) \<Rightarrow> string list" where
  "file_warnings f =
     (case f of (path, rd) \<Rightarrow>
        if HasSuffix path ''.cs''
        then (case rd of Inl msg \<Rightarrow> [warning_line path (OSError msg)] | Inr c \<Rightarrow> [])
        else [])"

text \<open>
  The document as a grouping of the records: the categories present, sorted, each with
  its records in the order given; in a category the class labels present, sorted, each
  with its records in the order given.
\<close>

definition in_category :: "FunctionInfo list \<Rightarrow> string \<Rightarrow> FunctionInfo list" where
  "in_category fns c = filter (\<lambda>fn. category_of fn = c) fns"

definition in_class :: "FunctionInfo list \<Rightarrow> string \<Rightarrow> FunctionInfo list" where
  "in_class fns cn = filter (\<lambda>fn. class_label fn = cn) fns"

definition sorted_categories :: "FunctionInfo list \<Rightarrow> string list" where
  "sorted_categories fns = sort (remdups (map category_of fns))"

definition sorted_class_labels :: "FunctionInfo list \<Rightarrow> string list" where
  "sorted_class_labels fns = sort (remdups (map class_label fns))"

definition class_section :: "FunctionInfo list \<Rightarrow> string \<Rightarrow> string" where
  "class_section catFns cn =
     class_head cn (in_class catFns cn) @
     concat (map (\<lambda>fn. write_function fn []) (in_class catFns cn))"

definition category_section :: "FunctionInfo list \<Rightarrow> string \<Rightarrow> string" where
  "category_section fns c =
     category_head c (in_category fns c) @
     concat (map (class_section (in_category fns c)) (sorted_class_labels (in_category fns c)))"

definition grouped_document :: "(string \<Rightarrow> string) \<Rightarrow> FunctionInfo list \<Rightarrow> string" where
  "grouped_document ul fns =
     doc_head fns @
     concat (map (\<lambda>c. nav_line ul c (in_category fns c)) (sorted_categories fns)) @
     [CHR 0x0A] @ ''---'' @ [CHR 0x0A, CHR 0x0A] @
     concat (map (category_section fns) (sorted_categories fns)) @
     doc_tail"

text \<open>The loop that groups records by a key, of which the two loops above are cases.\<close>

fun group_loop ::
  "(FunctionInfo \<Rightarrow> string) \<Rightarrow> FunctionInfo list \<Rightarrow> FunctionInfo list gomap
     \<Rightarrow> FunctionInfo list gomap"
where
  "group_loop key [] m = m"
| "group_loop key (fn # fns) m =
     group_loop key fns (map_set m (key fn) (map_get m (key fn) @ [fn]))"

text \<open>Two records used where a statement about the document is checked.\<close>

definition example_record_in_assets :: FunctionInfo where
  "example_record_in_assets =
     \<lparr>FileName = ''Player.cs'', FilePath = ''P/Assets/Player.cs'',
      RelativePath = ''Assets/Player.cs'', Namespace = [], ClassName = ''Player'',
      FuncName = ''Update'', Comments = [], Signature = ''void Update()'',
      IsUnityEvent = True, IsCoroutine = False, Attributes = [], Keywords = [''update'']\<rparr>"

definition example_record_at_root :: FunctionInfo where
  "example_record_at_root =
     \<lparr>FileName = ''Tool.cs'', FilePath = ''P/Tool.cs'',
      RelativePath = ''Tool.cs'', Namespace = [], ClassName = [],
      FuncName = ''Run'', Comments = [], Signature = ''void Run()'',
      IsUnityEvent = False, IsCoroutine = False, Attributes = [], Keywords = [''run'']\<rparr>"

text \<open>
  A line that the declaration pattern does not match, that is neither enclosed in brackets
  nor a comment, and that has a brace on it or begins with a bracket.
\<close>

definition kept_statement_line :: "string \<Rightarrow> bool" where
  "kept_statement_line l =
     (\<not> pattern_line l \<and> \<not> bracket_line l \<and> \<not> comment_line l \<and>
      (CHR ''{'' \<in> set (TrimSpace l) \<or> CHR ''}'' \<in> set (TrimSpace l) \<or>
       HasPrefix (TrimSpace l) ''[''))"

text \<open>
  The patterns in which \<open>^\<close> does not occur, and the pattern of a declaration after its
  \<open>^\s*\<close>.
\<close>

fun bol_free :: "re \<Rightarrow> bool" where
  "bol_free (Cls P) = True"
| "bol_free Eps = True"
| "bol_free Bol = False"
| "bol_free (Seq a b) = (bol_free a \<and> bol_free b)"
| "bol_free (Alt a b) = (bol_free a \<and> bol_free b)"
| "bol_free (Star r) = bol_free r"
| "bol_free (Grp i r) = bol_free r"

definition functionRegex_body :: re where
  "functionRegex_body = Seqs
     [Star (Seqs [Chr CHR ''['', Plus (Cls cls_attr_body), Chr CHR '']'', Star (Cls cls_s)]),
      Plus (Grp 1 (Alts [Str ''public'', Str ''private'', Str ''protected'',
                         Str ''internal'', Str ''static'', Cls cls_s])),
      Grp 2 (Plus (Cls cls_type)),
      Plus (Cls cls_s),
      Grp 3 (Plus (Cls cls_w)),
      Star (Cls cls_s),
      Chr CHR ''('',
      Grp 4 (Star (Cls (\<lambda>c. c \<noteq> CHR '')''))),
      Chr CHR '')'']"


text \<open>
  The files that the walk reaches, in its order: those of an entry, and those of the
  entries after it only when the walk of that entry met no failure.
\<close>

fun visited :: "paths \<Rightarrow> string \<Rightarrow> fnode \<Rightarrow> (string \<times> (os_error + string)) list"
and visited_list ::
  "paths \<Rightarrow> string \<Rightarrow> (string \<times> fnode) list \<Rightarrow> (string \<times> (os_error + string)) list"
where
  "visited fp path (File rd) = [(path, rd)]"
| "visited fp path (Dir entries) = visited_list fp path entries"
| "visited fp path (DirUnreadable msg) = []"
| "visited fp path (NoInfo msg) = []"
| "visited_list fp path [] = []"
| "visited_list fp path ((name, node) # rest) =
     visited fp (path_Join fp path name) node @
     (case first_failure node of Some msg \<Rightarrow> [] | None \<Rightarrow> visited_list fp path rest)"

text \<open>
  A third record for the statements about the document, and the text that stands between
  the head and the tail of the document for the three records.
\<close>

definition example_record_attack :: FunctionInfo where
  "example_record_attack =
     \<lparr>FileName = ''Player.cs'', FilePath = ''P/Assets/Player.cs'',
      RelativePath = ''Assets/Player.cs'', Namespace = [], ClassName = ''Player'',
      FuncName = ''Attack'', Comments = [''Hits the target.''],
      Signature = ''public IEnumerator Attack(int power)'',
      IsUnityEvent = False, IsCoroutine = True, Attributes = [''Header'', ''Range''],
      Keywords = [''attack'', ''hits'', ''the'', ''target.'']\<rparr>"

definition example_document_body :: string where
  "example_document_body =
     ''- ['' @ [CHR 0xF0, CHR 0x9F, CHR 0x93, CHR 0x81] @ '' Assets (2)](#assets)''
     @ [CHR 0x0A] @ ''- ['' @ [CHR 0xF0, CHR 0x9F, CHR 0x93, CHR 0x81] @ '' '' @ [CHR 0xE5,
     CHR 0x85, CHR 0xB6, CHR 0xE4, CHR 0xBB, CHR 0x96] @ '' (1)](#'' @ [CHR 0xE5, CHR 0x85,
     CHR 0xB6, CHR 0xE4, CHR 0xBB, CHR 0x96] @ '')'' @ [CHR 0x0A, CHR 0x0A] @ ''---''
     @ [CHR 0x0A, CHR 0x0A] @ ''## '' @ [CHR 0xF0, CHR 0x9F, CHR 0x93, CHR 0x81]
     @ '' Assets'' @ [CHR 0x0A, CHR 0x0A] @ ''> '' @ [CHR 0xE5, CHR 0x8C, CHR 0x85,
     CHR 0xE5, CHR 0x90, CHR 0xAB] @ '' 2 '' @ [CHR 0xE4, CHR 0xB8, CHR 0xAA, CHR 0xE5,
     CHR 0x87, CHR 0xBD, CHR 0xE6, CHR 0x95, CHR 0xB0, CHR 0x0A, CHR 0x0A] @ ''### ''
     @ [CHR 0xF0, CHR 0x9F, CHR 0x94, CHR 0xB8] @ '' '' @ [CHR 0xE7, CHR 0xB1, CHR 0xBB]
     @ '': '' @ [CHR 0x60] @ ''Player'' @ [CHR 0x60, CHR 0x0A, CHR 0x0A, CHR 0xF0,
     CHR 0x9F, CHR 0x93, CHR 0x84] @ '' '' @ [CHR 0xE6, CHR 0x96, CHR 0x87, CHR 0xE4,
     CHR 0xBB, CHR 0xB6] @ '': '' @ [CHR 0x60] @ ''Assets/Player.cs'' @ [CHR 0x60,
     CHR 0x0A, CHR 0x0A] @ ''#### '' @ [CHR 0x60] @ ''Update'' @ [CHR 0x60] @ '' ''
     @ [CHR 0xF0, CHR 0x9F, CHR 0x8E, CHR 0xAF] @ ''Unity'' @ [CHR 0xE4, CHR 0xBA,
     CHR 0x8B, CHR 0xE4, CHR 0xBB, CHR 0xB6, CHR 0x0A, CHR 0x0A, CHR 0x60, CHR 0x60,
     CHR 0x60] @ ''csharp'' @ [CHR 0x0A] @ ''void Update()'' @ [CHR 0x0A, CHR 0x60,
     CHR 0x60, CHR 0x60, CHR 0x0A, CHR 0x0A] @ ''**'' @ [CHR 0xF0, CHR 0x9F, CHR 0x94,
     CHR 0x91] @ '' '' @ [CHR 0xE5, CHR 0x85, CHR 0xB3, CHR 0xE9, CHR 0x94, CHR 0xAE,
     CHR 0xE8, CHR 0xAF, CHR 0x8D] @ ''**: '' @ [CHR 0x60] @ ''update'' @ [CHR 0x60,
     CHR 0x0A, CHR 0x0A] @ ''---'' @ [CHR 0x0A, CHR 0x0A] @ ''#### '' @ [CHR 0x60]
     @ ''Attack'' @ [CHR 0x60] @ '' '' @ [CHR 0xE2, CHR 0x8F, CHR 0xB1, CHR 0xEF, CHR 0xB8,
     CHR 0x8F, CHR 0xE5, CHR 0x8D, CHR 0x8F, CHR 0xE7, CHR 0xA8, CHR 0x8B, CHR 0x0A,
     CHR 0x0A] @ ''**'' @ [CHR 0xE7, CHR 0x89, CHR 0xB9, CHR 0xE6, CHR 0x80, CHR 0xA7]
     @ ''**: '' @ [CHR 0x60] @ ''[Header]'' @ [CHR 0x60] @ '', '' @ [CHR 0x60]
     @ ''[Range]'' @ [CHR 0x60, CHR 0x0A, CHR 0x0A, CHR 0x60, CHR 0x60, CHR 0x60]
     @ ''csharp'' @ [CHR 0x0A] @ ''public IEnumerator Attack(int power)'' @ [CHR 0x0A,
     CHR 0x60, CHR 0x60, CHR 0x60, CHR 0x0A, CHR 0x0A] @ ''**'' @ [CHR 0xF0, CHR 0x9F,
     CHR 0x93, CHR 0x9D] @ '' '' @ [CHR 0xE8, CHR 0xAF, CHR 0xB4, CHR 0xE6, CHR 0x98,
     CHR 0x8E] @ ''**:'' @ [CHR 0x0A] @ ''> Hits the target.'' @ [CHR 0x0A, CHR 0x0A]
     @ ''**'' @ [CHR 0xF0, CHR 0x9F, CHR 0x94, CHR 0x91] @ '' '' @ [CHR 0xE5, CHR 0x85,
     CHR 0xB3, CHR 0xE9, CHR 0x94, CHR 0xAE, CHR 0xE8, CHR 0xAF, CHR 0x8D] @ ''**: ''
     @ [CHR 0x60] @ ''attack'' @ [CHR 0x60] @ '' '' @ [CHR 0x60] @ ''hits'' @ [CHR 0x60]
     @ '' '' @ [CHR 0x60] @ ''the'' @ [CHR 0x60] @ '' '' @ [CHR 0x60] @ ''target.''
     @ [CHR 0x60, CHR 0x0A, CHR 0x0A] @ ''---'' @ [CHR 0x0A, CHR 0x0A] @ ''## ''
     @ [CHR 0xF0, CHR 0x9F, CHR 0x93, CHR 0x81] @ '' '' @ [CHR 0xE5, CHR 0x85, CHR 0xB6,
     CHR 0xE4, CHR 0xBB, CHR 0x96, CHR 0x0A, CHR 0x0A] @ ''> '' @ [CHR 0xE5, CHR 0x8C,
     CHR 0x85, CHR 0xE5, CHR 0x90, CHR 0xAB] @ '' 1 '' @ [CHR 0xE4, CHR 0xB8, CHR 0xAA,
     CHR 0xE5, CHR 0x87, CHR 0xBD, CHR 0xE6, CHR 0x95, CHR 0xB0, CHR 0x0A, CHR 0x0A]
     @ ''### '' @ [CHR 0xF0, CHR 0x9F, CHR 0x94, CHR 0xB8] @ '' '' @ [CHR 0xE7, CHR 0xB1,
     CHR 0xBB] @ '': '' @ [CHR 0x60, CHR 0xE5, CHR 0x85, CHR 0xA8, CHR 0xE5, CHR 0xB1,
     CHR 0x80, CHR 0xE5, CHR 0x87, CHR 0xBD, CHR 0xE6, CHR 0x95, CHR 0xB0, CHR 0x60,
     CHR 0x0A, CHR 0x0A, CHR 0xF0, CHR 0x9F, CHR 0x93, CHR 0x84] @ '' '' @ [CHR 0xE6,
     CHR 0x96, CHR 0x87, CHR 0xE4, CHR 0xBB, CHR 0xB6] @ '': '' @ [CHR 0x60] @ ''Tool.cs''
     @ [CHR 0x60, CHR 0x0A, CHR 0x0A] @ ''#### '' @ [CHR 0x60] @ ''Run'' @ [CHR 0x60,
     CHR 0x0A, CHR 0x0A, CHR 0x60, CHR 0x60, CHR 0x60] @ ''csharp'' @ [CHR 0x0A]
     @ ''void Run()'' @ [CHR 0x0A, CHR 0x60, CHR 0x60, CHR 0x60, CHR 0x0A, CHR 0x0A]
     @ ''**'' @ [CHR 0xF0, CHR 0x9F, CHR 0x94, CHR 0x91] @ '' '' @ [CHR 0xE5, CHR 0x85,
     CHR 0xB3, CHR 0xE9, CHR 0x94, CHR 0xAE, CHR 0xE8, CHR 0xAF, CHR 0x8D] @ ''**: ''
     @ [CHR 0x60] @ ''run'' @ [CHR 0x60, CHR 0x0A, CHR 0x0A] @ ''---'' @ [CHR 0x0A,
     CHR 0x0A]"

section \<open>Verified properties\<close>

subsection \<open>The keyword loops\<close>

lemma unique_loop_first_seen:
  "(\<And>k. map_index km k \<longleftrightarrow> k \<in> set seen) \<Longrightarrow>
   unique_loop kws km uk = uk @ first_seen seen kws"
proof (induction kws arbitrary: km uk seen)
  case Nil
  then show ?case by simp
next
  case (Cons kw kws)
  show ?case
  proof (cases "kw \<in> set seen \<or> kw = []")
    case True
    then show ?thesis using Cons.prems Cons.IH[of km seen uk] by auto
  next
    case False
    have inv: "\<And>k. map_index (km(kw \<mapsto> True)) k \<longleftrightarrow> k \<in> set (kw # seen)"
      using Cons.prems by (auto simp: map_index_def)
    have "unique_loop (kw # kws) km uk = unique_loop kws (km(kw \<mapsto> True)) (uk @ [kw])"
      using False Cons.prems by simp
    also have "\<dots> = (uk @ [kw]) @ first_seen (kw # seen) kws"
      by (rule Cons.IH[OF inv])
    also have "\<dots> = uk @ first_seen seen (kw # kws)"
      using False by simp
    finally show ?thesis .
  qed
qed

lemma first_seen_set: "set (first_seen seen xs) = set xs - set seen - {[]}"
  by (induction xs arbitrary: seen) auto

lemma first_seen_distinct: "distinct (first_seen seen xs)"
  by (induction xs arbitrary: seen) (auto simp: first_seen_set)

lemma comment_words_loop_eq:
  "comment_words_loop ul ws acc = acc @ map (ToLower ul) (filter (\<lambda>w. 1 < length w) ws)"
  by (induction ws arbitrary: acc) auto

lemma extractKeywords_eq:
  "extractKeywords ul f cs = first_seen [] (keyword_candidates ul f cs)"
  unfolding extractKeywords_def Let_def keyword_candidates_def comment_tokens_def
    comment_words_loop_eq
  using unique_loop_first_seen[of Map.empty "[]" _ "[]"]
  by (simp add: map_index_def)

lemma keywords_no_empty_no_repeat:
  "[] \<notin> set (extractKeywords ul f cs) \<and> distinct (extractKeywords ul f cs)"
  by (simp add: extractKeywords_eq first_seen_set first_seen_distinct)

lemma keyword_source:
  "k \<in> set (extractKeywords ul f cs) \<Longrightarrow>
   k \<in> set (splitCamelCase ul f) \<or>
   (\<exists>w \<in> set (comment_tokens cs). 1 < length w \<and> k = ToLower ul w)"
  by (auto simp: extractKeywords_eq first_seen_set keyword_candidates_def)

lemma long_token_kept:
  "w \<in> set (comment_tokens cs) \<Longrightarrow> 1 < length w \<Longrightarrow> ToLower ul w \<noteq> [] \<Longrightarrow>
   ToLower ul w \<in> set (extractKeywords ul f cs)"
  by (auto simp: extractKeywords_eq first_seen_set keyword_candidates_def)

subsection \<open>Comment words of one character\<close>

lemma single_character_token:
  "range_runes [CHR 0xE6, CHR 0x88, CHR 0x91] = [[CHR 0xE6, CHR 0x88, CHR 0x91]] \<and>
   length [CHR 0xE6, CHR 0x88, CHR 0x91] = (3::nat) \<and>
   comment_tokens [[CHR 0xE6, CHR 0x88, CHR 0x91]] = [[CHR 0xE6, CHR 0x88, CHR 0x91]]"
  by code_simp

lemma single_character_keywords:
  "extractKeywords (\<lambda>s. s) ''Say'' [[CHR 0xE6, CHR 0x88, CHR 0x91]]
     = [''say'', [CHR 0xE6, CHR 0x88, CHR 0x91]]"
  by code_simp

lemma single_letter_keywords:
  "extractKeywords (\<lambda>s. s) ''Say'' [''a''] = [''say''] \<and>
   extractKeywords (\<lambda>s. s) ''Say'' [''ab''] = [''say'', ''ab'']"
  by code_simp

lemma single_character_file:
  "map (\<lambda>r. (FuncName r, Comments r, Keywords r))
     (functions_acc (scan_lines (\<lambda>s. s) example_ctx scan_init
        [''// '' @ [CHR 0xE6, CHR 0x88, CHR 0x91], '' void Say() { }'']))
   = [(''Say'', [[CHR 0xE6, CHR 0x88, CHR 0x91]], [''say'', [CHR 0xE6, CHR 0x88, CHR 0x91]])]"
  by code_simp

text \<open>
  Claim C5.  The loop over the comment words keeps a word when it has more than one byte
  (\<open>len(word) > 1\<close>); the comment on that line of the source says that words of a single
  character are left out.  For an ASCII word the two agree: \<open>a\<close> gives no keyword and
  \<open>ab\<close> is kept.  A word of one character outside ASCII has two to four bytes and is
  kept: the character U+6211, the bytes \<open>E6 88 91\<close>, is one rune and one comment word, and
  the comment line that holds it, above \<open>void Say()\<close>, gives the keywords \<open>say\<close> and that
  character.  (The character has no case, and lowering leaves it as it is.)
\<close>

theorem single_character_comment_word_is_kept:
  "range_runes [CHR 0xE6, CHR 0x88, CHR 0x91] = [[CHR 0xE6, CHR 0x88, CHR 0x91]] \<and>
   length [CHR 0xE6, CHR 0x88, CHR 0x91] = (3::nat) \<and>
   comment_tokens [[CHR 0xE6, CHR 0x88, CHR 0x91]] = [[CHR 0xE6, CHR 0x88, CHR 0x91]] \<and>
   extractKeywords (\<lambda>s. s) ''Say'' [[CHR 0xE6, CHR 0x88, CHR 0x91]]
     = [''say'', [CHR 0xE6, CHR 0x88, CHR 0x91]] \<and>
   extractKeywords (\<lambda>s. s) ''Say'' [''a''] = [''say''] \<and>
   extractKeywords (\<lambda>s. s) ''Say'' [''ab''] = [''say'', ''ab''] \<and>
   map (\<lambda>r. (FuncName r, Comments r, Keywords r))
     (functions_acc (scan_lines (\<lambda>s. s) example_ctx scan_init
        [''// '' @ [CHR 0xE6, CHR 0x88, CHR 0x91], '' void Say() { }'']))
   = [(''Say'', [[CHR 0xE6, CHR 0x88, CHR 0x91]], [''say'', [CHR 0xE6, CHR 0x88, CHR 0x91]])]"
  using single_character_token single_character_keywords single_letter_keywords
    single_character_file by simp

text \<open>
  Claim C6.  \<open>extractKeywords\<close> is a function of the function name and the comment lines
  alone: equal arguments give the same keywords in the same order.  The order is that of
  the arguments, not of the map the function keeps: the result is the list of candidate
  words with the empty strings and the later copies left out.
\<close>

theorem extractKeywords_deterministic:
  "(funcName1 = funcName2 \<and> comments1 = comments2 \<longrightarrow>
      extractKeywords ul funcName1 comments1 = extractKeywords ul funcName2 comments2) \<and>
   extractKeywords ul funcName1 comments1
     = first_seen [] (keyword_candidates ul funcName1 comments1)"
  using extractKeywords_eq by simp

theorem extractKeywords_deterministic_witness:
  "extractKeywords (\<lambda>s. s) ''DoFade'' [''Fades the screen''] =
     extractKeywords (\<lambda>s. s) (''Do'' @ ''Fade'') ([] @ [''Fades the screen'']) \<and>
   extractKeywords (\<lambda>s. s) ''DoFade'' [''Fades the screen'']
     = first_seen [] (keyword_candidates (\<lambda>s. s) ''DoFade'' [''Fades the screen''])"
proof -
  have h: "''DoFade'' = ''Do'' @ ''Fade'' \<and> [''Fades the screen''] = [] @ [''Fades the screen'']"
    by simp
  note T = extractKeywords_deterministic
            [of "''DoFade''" "''Do'' @ ''Fade''" "[''Fades the screen'']"
                "[] @ [''Fades the screen'']" "\<lambda>s. s"]
  have a: "extractKeywords (\<lambda>s. s) ''DoFade'' [''Fades the screen''] =
     extractKeywords (\<lambda>s. s) (''Do'' @ ''Fade'') ([] @ [''Fades the screen''])"
    by (rule T[THEN conjunct1, rule_format, OF h])
  have b: "extractKeywords (\<lambda>s. s) ''DoFade'' [''Fades the screen'']
     = first_seen [] (keyword_candidates (\<lambda>s. s) ''DoFade'' [''Fades the screen''])"
    by (rule T[THEN conjunct2])
  show ?thesis by (intro conjI a b)
qed

text \<open>
  Claim C10.  For every list of records, every output path and every state of the disk,
  \<open>GenerateJSON\<close> returns no error and leaves the disk as it was: it builds its list of
  simplified records and writes nothing.
\<close>

theorem GenerateJSON_returns_nil_writes_nothing:
  "GenerateJSON fns outputPath disk = (None, disk)"
  by (simp add: GenerateJSON_def)

subsection \<open>The matcher finds only what the pattern matches\<close>

lemma sound_empty:
  "matches r pre [] \<Longrightarrow> k pre s c = Some x \<Longrightarrow>
   \<exists>w s' c'. s = w @ s' \<and> matches r pre w \<and> k (rev w @ pre) s' c' = Some x"
  by (rule exI[of _ "[]"], rule exI[of _ s], rule exI[of _ c]) simp

lemma rmatch_sound:
  "rmatch r pre s c k = Some x \<Longrightarrow>
   \<exists>w s' c'. s = w @ s' \<and> matches r pre w \<and> k (rev w @ pre) s' c' = Some x"
proof (induction r pre s c k arbitrary: x rule: rmatch.induct)
  case (1 P pre s c k)
  from "1.prems" obtain a t where s: "s = a # t" and Pa: "P a" and kk: "k (a # pre) t c = Some x"
    by (cases s) (auto simp: rmatch.simps split: if_splits)
  have "s = [a] @ t" using s by simp
  moreover have "matches (Cls P) pre [a]" using Pa by (rule m_Cls)
  moreover have "k (rev [a] @ pre) t c = Some x" using kk by simp
  ultimately show ?case by blast
next
  case (2 pre s c k)
  from "2.prems" have "k pre s c = Some x" by (simp add: rmatch.simps)
  from sound_empty[of Eps pre k s c x, OF m_Eps this] show ?case .
next
  case (3 pre s c k)
  from "3.prems" have b: "pre = [] \<or> hd pre = CHR 0x0A" and kk: "k pre s c = Some x"
    by (auto simp: rmatch.simps split: if_splits)
  from sound_empty[of Bol pre k s c x, OF m_Bol[OF b] kk] show ?case .
next
  case (4 a b pre s c k)
  from "4.prems" have "rmatch a pre s c (\<lambda>pre' s' c'. rmatch b pre' s' c' k) = Some x"
    by (simp add: rmatch.simps)
  from "4.IH"(2)[OF this] obtain u s1 c1 where
    s: "s = u @ s1" and ma: "matches a pre u" and kb: "rmatch b (rev u @ pre) s1 c1 k = Some x"
    by blast
  from "4.IH"(1)[OF kb] obtain v s2 c2 where
    s1: "s1 = v @ s2" and mb: "matches b (rev u @ pre) v" and kk: "k (rev v @ rev u @ pre) s2 c2 = Some x"
    by blast
  have "s = (u @ v) @ s2" using s s1 by simp
  moreover have "matches (Seq a b) pre (u @ v)" using ma mb by (rule m_Seq)
  moreover have "k (rev (u @ v) @ pre) s2 c2 = Some x" using kk by simp
  ultimately show ?case by blast
next
  case (5 a b pre s c k)
  show ?case
  proof (cases "rmatch a pre s c k")
    case None
    with "5.prems" have "rmatch b pre s c k = Some x" by (simp add: rmatch.simps)
    from "5.IH"(2)[OF None this] show ?thesis by (blast intro: m_AltR)
  next
    case (Some y)
    with "5.prems" have "rmatch a pre s c k = Some x" by (simp add: rmatch.simps)
    from "5.IH"(1)[OF this] show ?thesis by (blast intro: m_AltL)
  qed
next
  case (6 r pre s c k)
  let ?k = "\<lambda>pre' s' c'. if length s' < length s then rmatch (Star r) pre' s' c' k else None"
  show ?case
  proof (cases "rmatch r pre s c ?k")
    case None
    with "6.prems" have "k pre s c = Some x" by (simp add: rmatch.simps)
    from sound_empty[of "Star r" pre k s c x, OF m_StarNil this] show ?thesis .
  next
    case (Some y)
    with "6.prems" have "rmatch r pre s c ?k = Some x" by (simp add: rmatch.simps)
    from "6.IH"(2)[OF this] obtain u s1 c1 where
      s: "s = u @ s1" and mr: "matches r pre u" and kq: "?k (rev u @ pre) s1 c1 = Some x"
      by blast
    from kq have lt: "length s1 < length s" and rr: "rmatch (Star r) (rev u @ pre) s1 c1 k = Some x"
      by (auto split: if_splits)
    from "6.IH"(1)[OF lt rr] obtain v s2 c2 where
      s1: "s1 = v @ s2" and ms: "matches (Star r) (rev u @ pre) v"
      and kk: "k (rev v @ rev u @ pre) s2 c2 = Some x"
      by blast
    have "s = (u @ v) @ s2" using s s1 by simp
    moreover have "matches (Star r) pre (u @ v)" using mr ms by (rule m_StarStep)
    moreover have "k (rev (u @ v) @ pre) s2 c2 = Some x" using kk by simp
    ultimately show ?thesis by blast
  qed
next
  case (7 i r pre s c k)
  from "7.prems" have "rmatch r pre s c
       (\<lambda>pre' s' c'. k pre' s' (c'(i \<mapsto> rev (take (length pre' - length pre) pre')))) = Some x"
    by (simp add: rmatch.simps)
  from "7.IH"[OF this] show ?case by (blast intro: m_Grp)
qed

lemma match_here_sound:
  assumes "match_here r pre s = Some m"
  shows "\<exists>w. s = w @ m_rest m \<and> matches r pre w \<and> m_text m = w \<and> m_start m = length pre"
proof -
  from rmatch_sound[OF assms[unfolded match_here_def]] obtain w s' c' where
    s: "s = w @ s'" and mw: "matches r pre w" and
    m: "Some \<lparr>m_start = length pre,
              m_text = rev (take (length (rev w @ pre) - length pre) (rev w @ pre)),
              m_rest = s', m_groups = c'\<rparr> = Some m"
    by blast
  from m have "m_rest m = s'" "m_text m = w" "m_start m = length pre" by auto
  with s mw show ?thesis by blast
qed

lemma find_from_sound:
  "find_from r pre s = Some m \<Longrightarrow>
   \<exists>u w. s = u @ w @ m_rest m \<and> matches r (rev u @ pre) w \<and> m_text m = w"
proof (induction s arbitrary: pre)
  case Nil
  then have "match_here r pre [] = Some m" by simp
  from match_here_sound[OF this] show ?case by force
next
  case (Cons x xs)
  show ?case
  proof (cases "match_here r pre (x # xs)")
    case None
    with Cons.prems have "find_from r (x # pre) xs = Some m" by simp
    from Cons.IH[OF this] obtain u w where
      "xs = u @ w @ m_rest m" "matches r (rev u @ x # pre) w" "m_text m = w" by blast
    then have "x # xs = (x # u) @ w @ m_rest m \<and> matches r (rev (x # u) @ pre) w \<and> m_text m = w"
      by simp
    then show ?thesis by blast
  next
    case (Some y)
    with Cons.prems have "match_here r pre (x # xs) = Some m" by simp
    from match_here_sound[OF this] obtain w where
      "x # xs = w @ m_rest m" "matches r pre w" "m_text m = w" by blast
    then have "x # xs = [] @ w @ m_rest m \<and> matches r (rev [] @ pre) w \<and> m_text m = w"
      by simp
    then show ?thesis by blast
  qed
qed

lemma star_cls_all:
  "matches r pre w \<Longrightarrow> r = Star (Cls P) \<Longrightarrow> \<forall>c \<in> set w. P c"
proof (induction rule: matches.induct)
  case (m_StarStep r' pre u v)
  from m_StarStep.prems have r: "r' = Cls P" by simp
  from m_StarStep.hyps(1) have "\<forall>c \<in> set u. P c"
    unfolding r by (rule matches_ClsE) simp
  moreover from m_StarStep.IH(2) m_StarStep.prems have "\<forall>c \<in> set v. P c" by simp
  ultimately show ?case by auto
qed simp_all

lemma matches_Chr: "matches (Chr a) pre w \<Longrightarrow> w = [a]"
  unfolding Chr_def by (erule matches_ClsE) simp

lemma matches_Str: "matches (Str s) pre w \<Longrightarrow> w = s"
proof (induction s arbitrary: pre w rule: Str.induct)
  case 1
  then show ?case by (auto elim: matches_EpsE)
next
  case (2 a)
  then show ?case by (simp add: matches_Chr)
next
  case (3 a v va)
  from "3.prems" obtain u t where w: "w = u @ t" and u: "matches (Chr a) pre u"
    and t: "matches (Str (v # va)) (rev u @ pre) t"
    by (auto elim: matches_SeqE)
  from "3.IH"[OF t] matches_Chr[OF u] w show ?case by simp
qed

lemma space_not_cls_type: "cls_s c \<Longrightarrow> \<not> cls_type c"
  unfolding cls_s_def
  by (simp, elim disjE; hypsubst; code_simp)

lemma cls_type_not_space: "cls_type c \<Longrightarrow> \<not> cls_s c"
  using space_not_cls_type by blast

lemma type_after_space_ws: "cls_s c \<Longrightarrow> type_after_space (c # z) = type_after_space z"
  by (simp add: type_after_space_def)

lemma type_after_space_type: "cls_type c \<Longrightarrow> type_after_space (c # z)"
  using cls_type_not_space by (simp add: type_after_space_def)

lemma type_after_space_append: "type_after_space w \<Longrightarrow> type_after_space (w @ v)"
  unfolding type_after_space_def
  by (induction w) (auto split: if_splits)

subsection \<open>What the declaration pattern can match\<close>

lemma star_keeps_type_after_space:
  assumes step: "\<And>pre u z. matches r pre u \<Longrightarrow> type_after_space z \<Longrightarrow> type_after_space (u @ z)"
  shows "matches q pre w \<Longrightarrow> q = Star r \<Longrightarrow> type_after_space z \<Longrightarrow> type_after_space (w @ z)"
proof (induction arbitrary: z rule: matches.induct)
  case (m_StarStep r' pre u v)
  from m_StarStep.prems have r: "r' = r" by simp
  have "type_after_space (v @ z)" using m_StarStep.IH(2) m_StarStep.prems by simp
  from step[OF m_StarStep.hyps(1)[unfolded r] this] show ?case by simp
qed simp_all

lemma matches_Alts:
  "matches (Alts rs) pre u \<Longrightarrow> \<exists>r \<in> set rs. matches r pre u"
proof (induction rs rule: Alts.induct)
  case 1
  then show ?case by (auto elim: matches_ClsE)
next
  case (2 r)
  then show ?case by simp
next
  case (3 r v va)
  from "3.prems" have "matches r pre u \<or> matches (Alts (v # va)) pre u"
    by (auto elim: matches_AltE)
  then show ?case using "3.IH" by auto
qed

lemma modifier_step:
  assumes "matches (Grp 1 (Alts [Str ''public'', Str ''private'', Str ''protected'',
                         Str ''internal'', Str ''static'', Cls cls_s])) pre u"
    and z: "type_after_space z"
  shows "type_after_space (u @ z)"
proof -
  from assms(1) have "matches (Alts [Str ''public'', Str ''private'', Str ''protected'',
                         Str ''internal'', Str ''static'', Cls cls_s]) pre u"
    by (rule matches_GrpE)
  from matches_Alts[OF this] have
    "matches (Str ''public'') pre u \<or> matches (Str ''private'') pre u \<or>
     matches (Str ''protected'') pre u \<or> matches (Str ''internal'') pre u \<or>
     matches (Str ''static'') pre u \<or> matches (Cls cls_s) pre u"
    by (simp del: Str.simps)
  then have
    "u = ''public'' \<or> u = ''private'' \<or> u = ''protected'' \<or> u = ''internal'' \<or> u = ''static''
     \<or> (\<exists>c. u = [c] \<and> cls_s c)"
    apply (elim disjE)
         apply (drule matches_Str, simp)
        apply (drule matches_Str, simp)
       apply (drule matches_Str, simp)
      apply (drule matches_Str, simp)
     apply (drule matches_Str, simp)
    apply (erule matches_ClsE, simp)
    done
  moreover have "cls_type CHR ''p''" "cls_type CHR ''i''" "cls_type CHR ''s''" by code_simp+
  ultimately show ?thesis
    using z by (auto simp: type_after_space_type type_after_space_ws)
qed

lemma attribute_step:
  assumes "matches (Seqs [Chr CHR ''['', Plus (Cls cls_attr_body), Chr CHR '']'', Star (Cls cls_s)]) pre u"
  shows "type_after_space (u @ z)"
proof -
  from assms obtain t where "u = CHR ''['' # t"
    by (auto elim!: matches_SeqE dest!: matches_Chr)
  moreover have "cls_type CHR ''[''" by code_simp
  ultimately show ?thesis by (simp add: type_after_space_type)
qed

lemma plus_cls_nonempty:
  "matches (Plus (Cls P)) pre w \<Longrightarrow> \<exists>c t. w = c # t \<and> P c"
  unfolding Plus_def by (auto elim!: matches_SeqE matches_ClsE)

lemma functionRegex_matches:
  assumes m: "matches functionRegex pre w"
  shows "(pre = [] \<or> hd pre = CHR 0x0A) \<and> type_after_space w \<and> CHR ''('' \<in> set w"
proof -
  define A where "A = Seqs [Chr CHR ''['', Plus (Cls cls_attr_body), Chr CHR '']'', Star (Cls cls_s)]"
  define G where "G = Grp 1 (Alts [Str ''public'', Str ''private'', Str ''protected'',
                         Str ''internal'', Str ''static'', Cls cls_s])"
  define R where "R = Seqs [Plus (Cls cls_s), Grp 3 (Plus (Cls cls_w)), Star (Cls cls_s)]"
  define T where "T = Seqs [Grp 4 (Star (Cls (\<lambda>c. c \<noteq> CHR '')''))), Chr CHR '')'']"
  have fr: "functionRegex =
      Seq Bol (Seq (Star (Cls cls_s)) (Seq (Star A) (Seq (Seq G (Star G))
        (Seq (Grp 2 (Plus (Cls cls_type))) (Seq (Plus (Cls cls_s)) (Seq (Grp 3 (Plus (Cls cls_w)))
           (Seq (Star (Cls cls_s)) (Seq (Chr CHR ''('') T))))))))"
    by (simp add: functionRegex_def Plus_def A_def G_def T_def)
  from m[unfolded fr] obtain w0 w1 w2 w3 w4 w5 w6 w7 w8 w9 p1 p2 p3 p4 where
    w: "w = w0 @ w1 @ w2 @ (w3 @ w4) @ w5 @ w6 @ w7 @ w8 @ w9"
    and b: "matches Bol pre w0"
    and s1: "matches (Star (Cls cls_s)) p1 w1"
    and a: "matches (Star A) p2 w2"
    and g: "matches G p3 w3"
    and gs: "matches (Star G) p4 w4"
    and ty: "matches (Grp 2 (Plus (Cls cls_type))) (rev (w3 @ w4) @ p3) w5"
    and op: "\<exists>p y. w9 = CHR ''('' # y"
    by (elim matches_SeqE) (auto dest!: matches_Chr)
  from b have bol: "pre = [] \<or> hd pre = CHR 0x0A" and w0: "w0 = []"
    by (auto elim: matches_BolE)
  from ty have "matches (Plus (Cls cls_type)) (rev (w3 @ w4) @ p3) w5"
    by (rule matches_GrpE)
  from plus_cls_nonempty[OF this] obtain c t where w5: "w5 = c # t" and c: "cls_type c"
    by blast
  let ?rest = "w6 @ w7 @ w8 @ w9"
  have t5: "type_after_space (w5 @ ?rest)" using w5 c by (simp add: type_after_space_type)
  have t4: "type_after_space (w4 @ w5 @ ?rest)"
    using star_keeps_type_after_space[OF _ gs refl t5] modifier_step[unfolded G_def[symmetric]]
    by blast
  have t3: "type_after_space (w3 @ w4 @ w5 @ ?rest)"
    using modifier_step[unfolded G_def[symmetric], OF g t4] .
  have t2: "type_after_space (w2 @ w3 @ w4 @ w5 @ ?rest)"
    using star_keeps_type_after_space[OF _ a refl t3] attribute_step[unfolded A_def[symmetric]]
    by blast
  have "\<forall>c \<in> set w1. cls_s c" using star_cls_all[OF s1 refl] .
  then have t1: "type_after_space (w1 @ w2 @ w3 @ w4 @ w5 @ ?rest)"
    using t2 by (induction w1) (auto simp: type_after_space_ws)
  have "type_after_space w" using t1 w w0 by simp
  moreover have "CHR ''('' \<in> set w" using w op by auto
  ultimately show ?thesis using bol by blast
qed

subsection \<open>Trimming white space\<close>

lemma HasPrefix_split: "HasPrefix s p \<Longrightarrow> s = p @ drop (length p) s"
  unfolding HasPrefix_def by (metis append_take_drop_id)

lemma HasSuffix_split: "HasSuffix s p \<Longrightarrow> s = take (length s - length p) s @ p"
  unfolding HasSuffix_def by (metis append_take_drop_id)

lemma space_width_pos:
  assumes "space_width s \<noteq> 0"
  shows "\<exists>e \<in> set space_encodings. s = e @ drop (space_width s) s \<and> length e = space_width s"
proof -
  from assms obtain e where f: "List.find (HasPrefix s) space_encodings = Some e"
    and n: "space_width s = length e"
    by (auto simp: space_width_def split: option.splits)
  from f have "HasPrefix s e" "e \<in> set space_encodings"
    by (auto simp: find_Some_iff)
  with HasPrefix_split[of s e] n show ?thesis by auto
qed

lemma space_width_last_pos:
  assumes "space_width_last s \<noteq> 0"
  shows "\<exists>e \<in> set space_encodings.
           s = take (length s - space_width_last s) s @ e \<and> length e = space_width_last s"
proof -
  from assms obtain e where f: "List.find (HasSuffix s) space_encodings = Some e"
    and n: "space_width_last s = length e"
    by (auto simp: space_width_last_def split: option.splits)
  from f have "HasSuffix s e" "e \<in> set space_encodings"
    by (auto simp: find_Some_iff)
  with HasSuffix_split[of s e] n show ?thesis by auto
qed

lemma encoding_bytes: "e \<in> set space_encodings \<Longrightarrow> set e \<subseteq> space_bytes"
  unfolding space_bytes_def by auto

lemma TrimLeftSpace_decomp:
  "\<exists>sp. s = sp @ TrimLeftSpace s \<and> set sp \<subseteq> space_bytes"
proof (induction s rule: TrimLeftSpace.induct)
  case (1 s)
  show ?case
  proof (cases "space_width s = 0 \<or> s = []")
    case True
    then have "TrimLeftSpace s = s" by (simp add: TrimLeftSpace.simps)
    then have "s = [] @ TrimLeftSpace s \<and> set [] \<subseteq> space_bytes" by simp
    then show ?thesis by blast
  next
    case False
    then have eq: "TrimLeftSpace s = TrimLeftSpace (drop (space_width s) s)"
      by (subst TrimLeftSpace.simps) simp
    from False space_width_pos[of s] obtain e where
      e: "e \<in> set space_encodings" and s: "s = e @ drop (space_width s) s" by auto
    from "1.IH"[OF False] obtain sp where
      sp: "drop (space_width s) s = sp @ TrimLeftSpace (drop (space_width s) s)"
      and b: "set sp \<subseteq> space_bytes" by blast
    have "s = (e @ sp) @ TrimLeftSpace s" using s sp eq by (metis append.assoc)
    moreover have "set (e @ sp) \<subseteq> space_bytes" using encoding_bytes[OF e] b by simp
    ultimately show ?thesis by blast
  qed
qed

lemma TrimRightSpace_decomp:
  "\<exists>sp. s = TrimRightSpace s @ sp \<and> set sp \<subseteq> space_bytes"
proof (induction s rule: TrimRightSpace.induct)
  case (1 s)
  show ?case
  proof (cases "space_width_last s = 0 \<or> s = []")
    case True
    then have "TrimRightSpace s = s" by (simp add: TrimRightSpace.simps)
    then have "s = TrimRightSpace s @ [] \<and> set [] \<subseteq> space_bytes" by simp
    then show ?thesis by blast
  next
    case False
    let ?t = "take (length s - space_width_last s) s"
    from False have eq: "TrimRightSpace s = TrimRightSpace ?t"
      by (subst TrimRightSpace.simps) simp
    from False space_width_last_pos[of s] obtain e where
      e: "e \<in> set space_encodings" and s: "s = ?t @ e" by auto
    from "1.IH"[OF False] obtain sp where
      sp: "?t = TrimRightSpace ?t @ sp" and b: "set sp \<subseteq> space_bytes" by blast
    have "s = TrimRightSpace s @ (sp @ e)" using s sp eq by (metis append.assoc)
    moreover have "set (sp @ e) \<subseteq> space_bytes" using encoding_bytes[OF e] b by simp
    ultimately show ?thesis by blast
  qed
qed

lemma TrimSpace_decomp:
  "\<exists>sp1 sp2. s = sp1 @ TrimSpace s @ sp2 \<and> set sp1 \<subseteq> space_bytes \<and> set sp2 \<subseteq> space_bytes"
proof -
  from TrimLeftSpace_decomp[of s] obtain sp1 where
    1: "s = sp1 @ TrimLeftSpace s" "set sp1 \<subseteq> space_bytes" by blast
  from TrimRightSpace_decomp[of "TrimLeftSpace s"] obtain sp2 where
    2: "TrimLeftSpace s = TrimSpace s @ sp2" "set sp2 \<subseteq> space_bytes"
    unfolding TrimSpace_def by blast
  from 1 2 have "s = sp1 @ TrimSpace s @ sp2" by simp
  with 1 2 show ?thesis by blast
qed

lemma TrimSpace_bytes: "set s \<subseteq> set (TrimSpace s) \<union> space_bytes"
proof -
  from TrimSpace_decomp[of s] obtain sp1 sp2 where
    "s = sp1 @ TrimSpace s @ sp2" "set sp1 \<subseteq> space_bytes" "set sp2 \<subseteq> space_bytes" by blast
  then have "set s = set sp1 \<union> set (TrimSpace s) \<union> set sp2" by (metis set_append Un_assoc)
  with \<open>set sp1 \<subseteq> space_bytes\<close> \<open>set sp2 \<subseteq> space_bytes\<close> show ?thesis by auto
qed

lemma paren_not_space: "CHR ''('' \<notin> space_bytes"
  by code_simp

subsection \<open>Lines the declaration pattern cannot match\<close>

lemma pattern_line_matches:
  assumes "pattern_line l"
  shows "\<exists>u w v. l = u @ w @ v \<and> matches functionRegex (rev u) w"
proof -
  from assms obtain m where "find_from functionRegex [] l = Some m"
    by (auto simp: pattern_line_def FindStringSubmatch_def)
  from find_from_sound[OF this] show ?thesis by auto
qed

lemma pattern_line_paren: "pattern_line l \<Longrightarrow> CHR ''('' \<in> set l"
proof -
  assume "pattern_line l"
  from pattern_line_matches[OF this] obtain u w v where
    l: "l = u @ w @ v" and m: "matches functionRegex (rev u) w" by blast
  from functionRegex_matches[OF m] have "CHR ''('' \<in> set w" by simp
  with l show ?thesis by simp
qed

lemma pattern_line_type_after_space:
  assumes p: "pattern_line l" and nl: "CHR 0x0A \<notin> set l"
  shows "type_after_space l"
proof -
  from pattern_line_matches[OF p] obtain u w v where
    l: "l = u @ w @ v" and m: "matches functionRegex (rev u) w" by blast
  from functionRegex_matches[OF m] have b: "rev u = [] \<or> hd (rev u) = CHR 0x0A"
    and t: "type_after_space w" by simp_all
  have "u = []"
  proof (rule ccontr)
    assume "u \<noteq> []"
    with b have "hd (rev u) = CHR 0x0A" by simp
    with \<open>u \<noteq> []\<close> have "CHR 0x0A \<in> set u" by (metis hd_in_set rev_is_Nil_conv set_rev)
    with l nl show False by simp
  qed
  with l type_after_space_append[OF t, of v] show ?thesis by simp
qed

lemma blank_not_pattern: "blank_line l \<Longrightarrow> \<not> pattern_line l"
proof
  assume b: "blank_line l" and p: "pattern_line l"
  from TrimSpace_bytes[of l] b have "set l \<subseteq> space_bytes" by (simp add: blank_line_def)
  with pattern_line_paren[OF p] paren_not_space show False by blast
qed

lemma brace_only_not_pattern: "brace_only_line l \<Longrightarrow> \<not> pattern_line l"
proof
  assume b: "brace_only_line l" and p: "pattern_line l"
  from TrimSpace_bytes[of l] b have "set l \<subseteq> {CHR ''{'', CHR ''}''} \<union> space_bytes"
    by (auto simp: brace_only_line_def)
  with pattern_line_paren[OF p] paren_not_space show False by auto
qed

lemma encodings_leading: "list_all leading_ok space_encodings"
  by code_simp

lemma encoding_keeps_no_type:
  assumes e: "e \<in> set space_encodings" and z: "\<not> type_after_space z"
  shows "\<not> type_after_space (e @ z)"
proof -
  from e encodings_leading have "leading_ok e" by (simp add: list_all_iff)
  then obtain c t where ec: "e = c # t" and
    d: "(t = [] \<and> cls_s c) \<or> (\<not> cls_s c \<and> \<not> cls_type c)"
    by (auto simp: leading_ok_def split: list.splits)
  from d show ?thesis
  proof
    assume "t = [] \<and> cls_s c"
    then show ?thesis using ec z by (simp add: type_after_space_ws)
  next
    assume "\<not> cls_s c \<and> \<not> cls_type c"
    then show ?thesis using ec by (simp add: type_after_space_def)
  qed
qed

lemma slash_no_type: "\<not> type_after_space (CHR ''/'' # r)"
proof -
  have "\<not> cls_s CHR ''/''" "\<not> cls_type CHR ''/''" by code_simp+
  then show ?thesis by (simp add: type_after_space_def)
qed

lemma slash_after_space:
  "TrimLeftSpace s = CHR ''/'' # r \<Longrightarrow> \<not> type_after_space s"
proof (induction s rule: TrimLeftSpace.induct)
  case (1 s)
  show ?case
  proof (cases "space_width s = 0 \<or> s = []")
    case True
    then have "TrimLeftSpace s = s" by (simp add: TrimLeftSpace.simps)
    with "1.prems" slash_no_type show ?thesis by simp
  next
    case False
    then have eq: "TrimLeftSpace s = TrimLeftSpace (drop (space_width s) s)"
      by (subst TrimLeftSpace.simps) simp
    from False space_width_pos[of s] obtain e where
      e: "e \<in> set space_encodings" and s: "s = e @ drop (space_width s) s" by auto
    from "1.IH"[OF False] "1.prems" eq have "\<not> type_after_space (drop (space_width s) s)"
      by simp
    from encoding_keeps_no_type[OF e this] s show ?thesis by metis
  qed
qed

lemma HasPrefix_TrimRight:
  assumes "HasPrefix (TrimRightSpace t) p"
  shows "HasPrefix t p"
proof -
  from TrimRightSpace_decomp[of t] obtain sp where t: "t = TrimRightSpace t @ sp" by blast
  from assms have "TrimRightSpace t = p @ drop (length p) (TrimRightSpace t)"
    by (rule HasPrefix_split)
  with t have "t = p @ (drop (length p) (TrimRightSpace t) @ sp)" by (metis append.assoc)
  then show ?thesis unfolding HasPrefix_def by (metis append_eq_conv_conj)
qed

lemma comment_not_pattern:
  assumes c: "comment_line l" and nl: "CHR 0x0A \<notin> set l"
  shows "\<not> pattern_line l"
proof
  assume p: "pattern_line l"
  from c have "HasPrefix (TrimLeftSpace l) ''//''"
    unfolding comment_line_def TrimSpace_def by (rule HasPrefix_TrimRight)
  from HasPrefix_split[OF this] obtain r where "TrimLeftSpace l = CHR ''/'' # r" by auto
  from slash_after_space[OF this] pattern_line_type_after_space[OF p nl] show False by simp
qed

subsection \<open>One round of the line loop\<close>

lemma HasPrefix_doc_comment: "HasPrefix t ''///'' \<Longrightarrow> HasPrefix t ''//''"
  unfolding HasPrefix_def by (cases t rule: list.exhaust; simp; cases "tl t"; simp; cases "tl (tl t)"; auto)

lemma Contains_single: "Contains s [c] \<longleftrightarrow> c \<in> set s"
  by (induction s) (auto simp: HasPrefix_def)

lemma scan_line_bracket:
  "bracket_line l \<Longrightarrow>
   functions_acc (scan_line ul cx st l) = functions_acc st \<and>
   currentComments (scan_line ul cx st l) = currentComments st"
  by (simp add: scan_line_def bracket_line_def Let_def split: option.splits)

lemma scan_line_comment:
  assumes "\<not> bracket_line l" "comment_line l"
  shows "functions_acc (scan_line ul cx st l) = functions_acc st \<and>
         currentAttributes (scan_line ul cx st l) = currentAttributes st"
proof -
  from assms have nb: "\<not> (HasPrefix (TrimSpace l) ''['' \<and> HasSuffix (TrimSpace l) '']'')"
    and c: "HasPrefix (TrimSpace l) ''//''"
    by (auto simp: bracket_line_def comment_line_def)
  show ?thesis
    unfolding scan_line_def Let_def by (simp add: nb c)
qed

lemma scan_line_declaration:
  assumes "declaration_line l"
  shows "\<exists>m. FindStringSubmatch functionRegex l = Some m \<and>
             scan_line ul cx st l =
               \<lparr>functions_acc = functions_acc st @ [record_of ul cx st l m],
                currentComments = [], currentAttributes = []\<rparr>"
proof -
  from assms obtain m where m: "FindStringSubmatch functionRegex l = Some m"
    by (auto simp: declaration_line_def pattern_line_def)
  from assms have nb: "\<not> (HasPrefix (TrimSpace l) ''['' \<and> HasSuffix (TrimSpace l) '']'')"
    and nc: "\<not> HasPrefix (TrimSpace l) ''//''"
    by (auto simp: declaration_line_def bracket_line_def comment_line_def)
  from nc HasPrefix_doc_comment have nd: "\<not> HasPrefix (TrimSpace l) ''///''" by blast
  have "scan_line ul cx st l =
               \<lparr>functions_acc = functions_acc st @ [record_of ul cx st l m],
                currentComments = [], currentAttributes = []\<rparr>"
    unfolding scan_line_def Let_def record_of_def by (simp add: nb nc nd m)
  with m show ?thesis by blast
qed

lemma scan_line_other:
  assumes "\<not> bracket_line l" "\<not> comment_line l" "\<not> pattern_line l"
  shows "scan_line ul cx st l =
     (if TrimSpace l \<noteq> [] \<and> \<not> HasPrefix (TrimSpace l) ''[''
         \<and> CHR ''{'' \<notin> set (TrimSpace l) \<and> CHR ''}'' \<notin> set (TrimSpace l)
      then st\<lparr>currentComments := [], currentAttributes := []\<rparr> else st)"
proof -
  from assms have nb: "\<not> (HasPrefix (TrimSpace l) ''['' \<and> HasSuffix (TrimSpace l) '']'')"
    and nc: "\<not> HasPrefix (TrimSpace l) ''//''"
    and np: "FindStringSubmatch functionRegex l = None"
    by (auto simp: pattern_line_def bracket_line_def comment_line_def)
  from nc HasPrefix_doc_comment have nd: "\<not> HasPrefix (TrimSpace l) ''///''" by blast
  show ?thesis
    unfolding scan_line_def Let_def by (simp add: nb nc nd np Contains_single)
qed

lemma scan_lines_append:
  "scan_lines ul cx st (a @ b) = scan_lines ul cx (scan_lines ul cx st a) b"
  by (induction a arbitrary: st) auto

lemma blank_kinds: "blank_line l \<Longrightarrow> \<not> bracket_line l \<and> \<not> comment_line l"
  by (simp add: blank_line_def bracket_line_def comment_line_def HasPrefix_def)

lemma brace_only_kinds:
  assumes "brace_only_line l"
  shows "\<not> bracket_line l \<and> \<not> comment_line l \<and> \<not> HasPrefix (TrimSpace l) ''[''"
proof -
  from assms obtain c t where t: "TrimSpace l = c # t" and c: "c = CHR ''{'' \<or> c = CHR ''}''"
    by (cases "TrimSpace l") (auto simp: brace_only_line_def)
  then show ?thesis
    by (auto simp: bracket_line_def comment_line_def HasPrefix_def)
qed

lemma scan_line_neutral:
  assumes "blank_line l \<or> brace_only_line l"
  shows "scan_line ul cx st l = st"
  using assms
proof
  assume b: "blank_line l"
  from scan_line_other[of l ul cx st] blank_kinds[OF b] blank_not_pattern[OF b] b
  show ?thesis by (simp add: blank_line_def)
next
  assume b: "brace_only_line l"
  then obtain c t where t: "TrimSpace l = c # t" and c: "c = CHR ''{'' \<or> c = CHR ''}''"
    by (cases "TrimSpace l") (auto simp: brace_only_line_def)
  from scan_line_other[of l ul cx st] brace_only_kinds[OF b] brace_only_not_pattern[OF b] t c
  show ?thesis by auto
qed

lemma scan_lines_neutral:
  "\<forall>l \<in> set ins. blank_line l \<or> brace_only_line l \<Longrightarrow>
   scan_lines ul cx st (ins @ rest) = scan_lines ul cx st rest"
  by (induction ins) (auto simp: scan_line_neutral)

lemma scan_line_plain_statement:
  assumes "plain_statement_line l"
  shows "currentComments (scan_line ul cx st l) = [] \<and>
         currentAttributes (scan_line ul cx st l) = []"
proof (cases "pattern_line l")
  case True
  from assms have "\<not> bracket_line l" "\<not> comment_line l"
    by (auto simp: plain_statement_line_def bracket_line_def comment_line_def)
  with True have "declaration_line l" by (simp add: declaration_line_def)
  from scan_line_declaration[OF this, of ul cx st] show ?thesis by auto
next
  case False
  from assms have "\<not> bracket_line l" "\<not> comment_line l"
    by (auto simp: plain_statement_line_def bracket_line_def comment_line_def)
  from scan_line_other[OF this False, of ul cx st] assms show ?thesis
    by (simp add: plain_statement_line_def)
qed

subsection \<open>The records of a file\<close>

lemma SplitByte_nonempty: "SplitByte s c \<noteq> []"
  by (induction s) (auto split: list.splits)

lemma SplitByte_no_sep: "l \<in> set (SplitByte s c) \<Longrightarrow> c \<notin> set l"
proof (induction s arbitrary: l)
  case Nil
  then show ?case by simp
next
  case (Cons x xs)
  show ?case
  proof (cases "x = c")
    case True
    with Cons show ?thesis by auto
  next
    case False
    obtain w ws where sp: "SplitByte xs c = w # ws"
      using SplitByte_nonempty[of xs c] by (cases "SplitByte xs c") auto
    with Cons.prems False have "l = x # w \<or> l \<in> set ws" by simp
    moreover have "c \<notin> set w" using Cons.IH[of w] sp by simp
    moreover have "l \<in> set ws \<Longrightarrow> c \<notin> set l" using Cons.IH[of l] sp by simp
    ultimately show ?thesis using False by auto
  qed
qed

lemma SplitByte_single: "c \<notin> set s \<Longrightarrow> SplitByte s c = [s]"
  by (induction s) (auto split: list.splits)

lemma scan_line_count:
  assumes "CHR 0x0A \<notin> set l"
  shows "length (functions_acc (scan_line ul cx st l)) =
         length (functions_acc st) + (if pattern_line l \<and> \<not> bracket_line l then 1 else 0)"
proof (cases "bracket_line l")
  case True
  then show ?thesis using scan_line_bracket[of l ul cx st] by simp
next
  case nb: False
  show ?thesis
  proof (cases "comment_line l")
    case True
    from comment_not_pattern[OF True assms] scan_line_comment[OF nb True, of ul cx st] nb
    show ?thesis by simp
  next
    case nc: False
    show ?thesis
    proof (cases "pattern_line l")
      case True
      with nb nc have "declaration_line l" by (simp add: declaration_line_def)
      from scan_line_declaration[OF this, of ul cx st] True nb show ?thesis by auto
    next
      case False
      from scan_line_other[OF nb nc False, of ul cx st] False show ?thesis by simp
    qed
  qed
qed

lemma scan_lines_count:
  "\<forall>l \<in> set ls. CHR 0x0A \<notin> set l \<Longrightarrow>
   length (functions_acc (scan_lines ul cx st ls)) =
   length (functions_acc st) + length (filter (\<lambda>l. pattern_line l \<and> \<not> bracket_line l) ls)"
proof (induction ls arbitrary: st)
  case Nil
  then show ?case by simp
next
  case (Cons l ls)
  from Cons.prems have nl: "CHR 0x0A \<notin> set l" and rest: "\<forall>l \<in> set ls. CHR 0x0A \<notin> set l"
    by simp_all
  show ?case
    using Cons.IH[OF rest, of "scan_line ul cx st l"] scan_line_count[OF nl, of ul cx st]
    by simp
qed

lemma parse_content_count:
  "length (parse_content ul fp content filePath rootPath) =
   length (filter (\<lambda>l. pattern_line l \<and> \<not> bracket_line l) (SplitByte content (CHR 0x0A)))"
proof -
  have "\<forall>l \<in> set (SplitByte content (CHR 0x0A)). CHR 0x0A \<notin> set l"
    using SplitByte_no_sep by blast
  from scan_lines_count[OF this] show ?thesis
    by (simp add: parse_content_def Let_def scan_init_def)
qed

lemma scan_line_not_declaration:
  assumes "\<not> declaration_line l"
  shows "functions_acc (scan_line ul cx st l) = functions_acc st"
proof (cases "bracket_line l")
  case True
  then show ?thesis using scan_line_bracket[of l ul cx st] by simp
next
  case nb: False
  show ?thesis
  proof (cases "comment_line l")
    case True
    from scan_line_comment[OF nb True, of ul cx st] show ?thesis by simp
  next
    case nc: False
    with nb assms have np: "\<not> pattern_line l" by (simp add: declaration_line_def)
    from scan_line_other[OF nb nc np, of ul cx st] show ?thesis by simp
  qed
qed

lemma scan_lines_declarations:
  "\<exists>new. functions_acc (scan_lines ul cx st ls) = functions_acc st @ new \<and>
         list_all2 (\<lambda>r l. \<exists>m st'. FindStringSubmatch functionRegex l = Some m \<and>
                                  r = record_of ul cx st' l m)
           new (filter declaration_line ls)"
proof (induction ls arbitrary: st)
  case Nil
  then show ?case by simp
next
  case (Cons l ls)
  let ?P = "\<lambda>r l. \<exists>m st'. FindStringSubmatch functionRegex l = Some m \<and>
                         r = record_of ul cx st' l m"
  from Cons.IH[of "scan_line ul cx st l"] obtain new where
    n: "functions_acc (scan_lines ul cx (scan_line ul cx st l) ls) =
          functions_acc (scan_line ul cx st l) @ new"
    and a: "list_all2 ?P new (filter declaration_line ls)" by blast
  show ?case
  proof (cases "declaration_line l")
    case True
    from scan_line_declaration[OF True, of ul cx st] obtain m where
      m: "FindStringSubmatch functionRegex l = Some m" and
      s: "functions_acc (scan_line ul cx st l) = functions_acc st @ [record_of ul cx st l m]"
      by auto
    from m have "?P (record_of ul cx st l m) l" by blast
    with a True have "list_all2 ?P (record_of ul cx st l m # new)
                        (filter declaration_line (l # ls))" by simp
    moreover from n s have "functions_acc (scan_lines ul cx st (l # ls)) =
        functions_acc st @ (record_of ul cx st l m # new)" by simp
    ultimately show ?thesis by blast
  next
    case False
    from scan_line_not_declaration[OF False, of ul cx st] n
    have "functions_acc (scan_lines ul cx st (l # ls)) = functions_acc st @ new" by simp
    with a False show ?thesis by auto
  qed
qed

lemma Contains_iff: "Contains s sub \<longleftrightarrow> (\<exists>u v. s = u @ sub @ v)"
proof (induction s)
  case Nil
  then show ?case by auto
next
  case (Cons x xs)
  show ?case
  proof
    assume "Contains (x # xs) sub"
    then have "HasPrefix (x # xs) sub \<or> Contains xs sub" by simp
    then show "\<exists>u v. x # xs = u @ sub @ v"
    proof
      assume "HasPrefix (x # xs) sub"
      from HasPrefix_split[OF this] have "x # xs = [] @ sub @ drop (length sub) (x # xs)" by simp
      then show ?thesis by blast
    next
      assume "Contains xs sub"
      with Cons.IH obtain u v where "xs = u @ sub @ v" by blast
      then have "x # xs = (x # u) @ sub @ v" by simp
      then show ?thesis by blast
    qed
  next
    assume "\<exists>u v. x # xs = u @ sub @ v"
    then obtain u v where e: "x # xs = u @ sub @ v" by blast
    show "Contains (x # xs) sub"
    proof (cases u)
      case Nil
      with e have "HasPrefix (x # xs) sub" by (simp add: HasPrefix_def)
      then show ?thesis by simp
    next
      case (Cons y ys)
      with e have "xs = ys @ sub @ v" by simp
      with Cons.IH have "Contains xs sub" by blast
      then show ?thesis by simp
    qed
  qed
qed

lemma unityEvents_names: "map_index unityEvents n \<longleftrightarrow> n \<in> unity_event_names"
  unfolding map_index_def unityEvents_def unity_event_names_def
  by (simp split: option.splits)

subsection \<open>Comments and annotations across inserted lines\<close>

lemma declaration_after_neutral:
  assumes n: "\<forall>x \<in> set ins. blank_line x \<or> brace_only_line x" and d: "declaration_line d"
  shows "\<exists>r. functions_acc (scan_lines ul cx st (block @ ins @ [d])) =
               functions_acc (scan_lines ul cx st block) @ [r] \<and>
             Comments r = currentComments (scan_lines ul cx st block) \<and>
             Attributes r = currentAttributes (scan_lines ul cx st block)"
proof -
  let ?st = "scan_lines ul cx st block"
  have "scan_lines ul cx st (block @ ins @ [d]) = scan_lines ul cx ?st (ins @ [d])"
    by (rule scan_lines_append)
  also have "\<dots> = scan_lines ul cx ?st [d]" by (rule scan_lines_neutral[OF n])
  also have "\<dots> = scan_line ul cx ?st d" by simp
  finally have eq: "scan_lines ul cx st (block @ ins @ [d]) = scan_line ul cx ?st d" .
  from scan_line_declaration[OF d, of ul cx ?st] obtain m where
    "scan_line ul cx ?st d = \<lparr>functions_acc = functions_acc ?st @ [record_of ul cx ?st d m],
                currentComments = [], currentAttributes = []\<rparr>" by blast
  with eq have "functions_acc (scan_lines ul cx st (block @ ins @ [d])) =
      functions_acc ?st @ [record_of ul cx ?st d m]" by simp
  moreover have "Comments (record_of ul cx ?st d m) = currentComments ?st"
    "Attributes (record_of ul cx ?st d m) = currentAttributes ?st"
    by (simp_all add: record_of_def)
  ultimately show ?thesis by blast
qed

lemma scan_line_kept_statement:
  assumes "kept_statement_line l"
  shows "scan_line ul cx st l = st"
proof -
  from assms have nb: "\<not> bracket_line l" and nc: "\<not> comment_line l" and np: "\<not> pattern_line l"
    by (simp_all add: kept_statement_line_def)
  from assms have k: "CHR ''{'' \<in> set (TrimSpace l) \<or> CHR ''}'' \<in> set (TrimSpace l) \<or>
       HasPrefix (TrimSpace l) ''[''" by (simp add: kept_statement_line_def)
  from scan_line_other[OF nb nc np, of ul cx st] k show ?thesis by auto
qed

text \<open>
  Claim C1, amended.  In the loop of \<open>ParseFile\<close> over the lines, blank lines and lines of
  braces only, put in anywhere, change nothing: in particular a declaration that follows
  a block of comments and annotations gets the same comments and annotations with such
  lines in between.  A line put in between that has text, does not begin with \<open>//\<close> or
  \<open>[\<close> and has no brace on it empties both lists, so the declaration gets no comments
  and no annotations.  A line that the declaration pattern does not match, that is
  neither a comment line nor enclosed in brackets, and that has a brace on it or begins
  with \<open>[\<close>, changes nothing either: the declaration after it gets the comments and
  annotations of the block.
\<close>

theorem comment_association_kept_or_reset:
  "((\<forall>x \<in> set ins. blank_line x \<or> brace_only_line x) \<longrightarrow>
      scan_lines ul cx st (block @ ins @ rest) = scan_lines ul cx st (block @ rest)) \<and>
   ((\<forall>x \<in> set ins. blank_line x \<or> brace_only_line x) \<and> declaration_line d \<longrightarrow>
      (\<exists>r. functions_acc (scan_lines ul cx st (block @ ins @ [d])) =
              functions_acc (scan_lines ul cx st block) @ [r] \<and>
            Comments r = currentComments (scan_lines ul cx st block) \<and>
            Attributes r = currentAttributes (scan_lines ul cx st block))) \<and>
   (plain_statement_line l \<and> (\<forall>x \<in> set ins. blank_line x \<or> brace_only_line x) \<and>
    declaration_line d \<longrightarrow>
      (\<exists>r. functions_acc (scan_lines ul cx st (block @ l # ins @ [d])) =
              functions_acc (scan_lines ul cx st (block @ [l])) @ [r] \<and>
            Comments r = [] \<and> Attributes r = [])) \<and>
   (kept_statement_line k \<longrightarrow>
      scan_lines ul cx st (block @ k # rest) = scan_lines ul cx st (block @ rest)) \<and>
   (kept_statement_line k \<and> declaration_line d \<longrightarrow>
      (\<exists>r. functions_acc (scan_lines ul cx st (block @ [k, d])) =
              functions_acc (scan_lines ul cx st block) @ [r] \<and>
            Comments r = currentComments (scan_lines ul cx st block) \<and>
            Attributes r = currentAttributes (scan_lines ul cx st block)))"
proof (intro conjI impI)
  assume n: "\<forall>x \<in> set ins. blank_line x \<or> brace_only_line x"
  have "scan_lines ul cx st (block @ ins @ rest) =
        scan_lines ul cx (scan_lines ul cx st block) (ins @ rest)"
    by (rule scan_lines_append)
  also have "\<dots> = scan_lines ul cx (scan_lines ul cx st block) rest"
    by (rule scan_lines_neutral[OF n])
  also have "\<dots> = scan_lines ul cx st (block @ rest)"
    by (rule scan_lines_append[symmetric])
  finally show "scan_lines ul cx st (block @ ins @ rest) = scan_lines ul cx st (block @ rest)" .
next
  assume "(\<forall>x \<in> set ins. blank_line x \<or> brace_only_line x) \<and> declaration_line d"
  then show "\<exists>r. functions_acc (scan_lines ul cx st (block @ ins @ [d])) =
              functions_acc (scan_lines ul cx st block) @ [r] \<and>
            Comments r = currentComments (scan_lines ul cx st block) \<and>
            Attributes r = currentAttributes (scan_lines ul cx st block)"
    using declaration_after_neutral by blast
next
  assume a: "plain_statement_line l \<and> (\<forall>x \<in> set ins. blank_line x \<or> brace_only_line x) \<and>
    declaration_line d"
  let ?st = "scan_lines ul cx st (block @ [l])"
  have "?st = scan_line ul cx (scan_lines ul cx st block) l"
    by (simp add: scan_lines_append)
  with a scan_line_plain_statement[of l ul cx "scan_lines ul cx st block"]
  have e: "currentComments ?st = []" "currentAttributes ?st = []" by simp_all
  from a declaration_after_neutral[of ins d ul cx st "block @ [l]"]
  obtain r where "functions_acc (scan_lines ul cx st ((block @ [l]) @ ins @ [d])) =
               functions_acc ?st @ [r]" "Comments r = currentComments ?st"
             "Attributes r = currentAttributes ?st" by blast
  with e have "functions_acc (scan_lines ul cx st (block @ l # ins @ [d])) =
              functions_acc ?st @ [r] \<and> Comments r = [] \<and> Attributes r = []" by simp
  then show "\<exists>r. functions_acc (scan_lines ul cx st (block @ l # ins @ [d])) =
              functions_acc (scan_lines ul cx st (block @ [l])) @ [r] \<and>
            Comments r = [] \<and> Attributes r = []" by blast
next
  assume k: "kept_statement_line k"
  show "scan_lines ul cx st (block @ k # rest) = scan_lines ul cx st (block @ rest)"
    by (simp add: scan_lines_append scan_line_kept_statement[OF k])
next
  assume a: "kept_statement_line k \<and> declaration_line d"
  then have k: "kept_statement_line k" and d: "declaration_line d" by simp_all
  have "scan_lines ul cx st (block @ [k, d]) = scan_lines ul cx st (block @ [] @ [d])"
    by (simp add: scan_lines_append scan_line_kept_statement[OF k])
  moreover from declaration_after_neutral[of "[]" d ul cx st block] d
  have "\<exists>r. functions_acc (scan_lines ul cx st (block @ [] @ [d])) =
              functions_acc (scan_lines ul cx st block) @ [r] \<and>
            Comments r = currentComments (scan_lines ul cx st block) \<and>
            Attributes r = currentAttributes (scan_lines ul cx st block)" by simp
  ultimately show "\<exists>r. functions_acc (scan_lines ul cx st (block @ [k, d])) =
              functions_acc (scan_lines ul cx st block) @ [r] \<and>
            Comments r = currentComments (scan_lines ul cx st block) \<and>
            Attributes r = currentAttributes (scan_lines ul cx st block)" by simp
qed

lemma example_blank: "blank_line []"
  by code_simp

lemma example_brace: "brace_only_line ''{''"
  by code_simp

lemma example_declaration: "declaration_line '' void F() { }''"
  by code_simp

lemma example_statement: "plain_statement_line ''int x = 0;''"
  by code_simp

lemma example_kept_brace: "kept_statement_line ''if (ready) {''"
  by code_simp

theorem comment_association_kept_or_reset_witness:
  "scan_lines (\<lambda>s. s) example_ctx scan_init ([''// Doc''] @ [[], ''{''] @ [])
     = scan_lines (\<lambda>s. s) example_ctx scan_init ([''// Doc''] @ []) \<and>
   (\<exists>r. functions_acc (scan_lines (\<lambda>s. s) example_ctx scan_init
                         ([''// Doc''] @ [[], ''{''] @ ['' void F() { }''])) =
           functions_acc (scan_lines (\<lambda>s. s) example_ctx scan_init [''// Doc'']) @ [r] \<and>
         Comments r = currentComments (scan_lines (\<lambda>s. s) example_ctx scan_init [''// Doc'']) \<and>
         Attributes r = currentAttributes (scan_lines (\<lambda>s. s) example_ctx scan_init [''// Doc''])) \<and>
   (\<exists>r. functions_acc (scan_lines (\<lambda>s. s) example_ctx scan_init
                         ([''// Doc''] @ ''int x = 0;'' # [[], ''{''] @ ['' void F() { }''])) =
           functions_acc (scan_lines (\<lambda>s. s) example_ctx scan_init
                         ([''// Doc''] @ [''int x = 0;''])) @ [r] \<and>
         Comments r = [] \<and> Attributes r = []) \<and>
   scan_lines (\<lambda>s. s) example_ctx scan_init ([''// Doc''] @ ''if (ready) {'' # [])
     = scan_lines (\<lambda>s. s) example_ctx scan_init ([''// Doc''] @ []) \<and>
   (\<exists>r. functions_acc (scan_lines (\<lambda>s. s) example_ctx scan_init
                         ([''// Doc''] @ [''if (ready) {'', '' void F() { }''])) =
           functions_acc (scan_lines (\<lambda>s. s) example_ctx scan_init [''// Doc'']) @ [r] \<and>
         Comments r = currentComments (scan_lines (\<lambda>s. s) example_ctx scan_init [''// Doc'']) \<and>
         Attributes r = currentAttributes (scan_lines (\<lambda>s. s) example_ctx scan_init [''// Doc'']))"
proof -
  note T = comment_association_kept_or_reset
             [of "[[], ''{'']" "\<lambda>s. s" example_ctx scan_init "[''// Doc'']" "[]"
                 "'' void F() { }''" "''int x = 0;''" "''if (ready) {''"]
  have n: "\<forall>x \<in> set [[], ''{'']. blank_line x \<or> brace_only_line x"
    using example_blank example_brace by simp
  have a: "scan_lines (\<lambda>s. s) example_ctx scan_init ([''// Doc''] @ [[], ''{''] @ [])
     = scan_lines (\<lambda>s. s) example_ctx scan_init ([''// Doc''] @ [])"
    by (rule T[THEN conjunct1, THEN mp, OF n])
  have b: "\<exists>r. functions_acc (scan_lines (\<lambda>s. s) example_ctx scan_init
                         ([''// Doc''] @ [[], ''{''] @ ['' void F() { }''])) =
           functions_acc (scan_lines (\<lambda>s. s) example_ctx scan_init [''// Doc'']) @ [r] \<and>
         Comments r = currentComments (scan_lines (\<lambda>s. s) example_ctx scan_init [''// Doc'']) \<and>
         Attributes r = currentAttributes (scan_lines (\<lambda>s. s) example_ctx scan_init [''// Doc''])"
    by (rule T[THEN conjunct2, THEN conjunct1, THEN mp, OF conjI[OF n example_declaration]])
  have c: "\<exists>r. functions_acc (scan_lines (\<lambda>s. s) example_ctx scan_init
                         ([''// Doc''] @ ''int x = 0;'' # [[], ''{''] @ ['' void F() { }''])) =
           functions_acc (scan_lines (\<lambda>s. s) example_ctx scan_init
                         ([''// Doc''] @ [''int x = 0;''])) @ [r] \<and>
         Comments r = [] \<and> Attributes r = []"
    by (rule T[THEN conjunct2, THEN conjunct2, THEN conjunct1, THEN mp,
               OF conjI[OF example_statement conjI[OF n example_declaration]]])
  have d: "scan_lines (\<lambda>s. s) example_ctx scan_init ([''// Doc''] @ ''if (ready) {'' # [])
     = scan_lines (\<lambda>s. s) example_ctx scan_init ([''// Doc''] @ [])"
    by (rule T[THEN conjunct2, THEN conjunct2, THEN conjunct2, THEN conjunct1, THEN mp,
               OF example_kept_brace])
  have e: "\<exists>r. functions_acc (scan_lines (\<lambda>s. s) example_ctx scan_init
                         ([''// Doc''] @ [''if (ready) {'', '' void F() { }''])) =
           functions_acc (scan_lines (\<lambda>s. s) example_ctx scan_init [''// Doc'']) @ [r] \<and>
         Comments r = currentComments (scan_lines (\<lambda>s. s) example_ctx scan_init [''// Doc'']) \<and>
         Attributes r = currentAttributes (scan_lines (\<lambda>s. s) example_ctx scan_init [''// Doc''])"
    by (rule T[THEN conjunct2, THEN conjunct2, THEN conjunct2, THEN conjunct2, THEN mp,
               OF conjI[OF example_kept_brace example_declaration]])
  show ?thesis by (intro conjI a b c d e)
qed

lemma example_brace_statement:
  "\<not> blank_line ''if (ready) {'' \<and> \<not> brace_only_line ''if (ready) {'' \<and>
   \<not> comment_line ''if (ready) {'' \<and> \<not> bracket_line ''if (ready) {''"
  by code_simp

lemma example_brace_statement_scan:
  "map (\<lambda>r. (FuncName r, Comments r, Attributes r))
     (functions_acc (scan_lines (\<lambda>s. s) example_ctx scan_init
        [''[Header]'', ''// Doc'', ''if (ready) {'', '' void F() { }'']))
   = [(''F'', [''Doc''], [''Header''])]"
  by code_simp

theorem brace_statement_keeps_comments:
  "\<not> blank_line ''if (ready) {'' \<and> \<not> brace_only_line ''if (ready) {'' \<and>
   \<not> comment_line ''if (ready) {'' \<and> \<not> bracket_line ''if (ready) {'' \<and>
   map (\<lambda>r. (FuncName r, Comments r, Attributes r))
     (functions_acc (scan_lines (\<lambda>s. s) example_ctx scan_init
        [''[Header]'', ''// Doc'', ''if (ready) {'', '' void F() { }'']))
   = [(''F'', [''Doc''], [''Header''])]"
  using example_brace_statement example_brace_statement_scan by simp

subsection \<open>Record count and flags\<close>

text \<open>
  Claim C3, amended.  For every file text, \<open>ParseFile\<close> returns as many records as there
  are lines that the declaration pattern matches and whose trimmed text is not enclosed
  in brackets: a line that begins with \<open>[\<close> and ends with \<open>]\<close> is read as an annotation
  before the pattern is tried.  (A comment line is never matched by the pattern.)
\<close>

theorem record_count_is_unbracketed_pattern_lines:
  "\<exists>recs. ParseFile ul fp (Inr content) filePath rootPath = Inr recs \<and>
          length recs =
            length (filter (\<lambda>l. pattern_line l \<and> \<not> bracket_line l)
                      (SplitByte content (CHR 0x0A)))"
  by (simp add: ParseFile_def parse_content_count)

theorem record_count_is_unbracketed_pattern_lines_witness:
  "\<exists>recs. ParseFile (\<lambda>s. s) example_paths (Inr '' void F() { }'') ''Assets/Player.cs'' ''.''
            = Inr recs \<and>
          length recs =
            length (filter (\<lambda>l. pattern_line l \<and> \<not> bracket_line l)
                      (SplitByte '' void F() { }'' (CHR 0x0A)))"
  by (rule record_count_is_unbracketed_pattern_lines)

lemma bracketed_declaration_split:
  "SplitByte ''[Obsolete] void Reset() { } // see [1]'' (CHR 0x0A)
     = [''[Obsolete] void Reset() { } // see [1]'']"
  by code_simp

lemma bracketed_declaration_pattern:
  "pattern_line ''[Obsolete] void Reset() { } // see [1]''"
  by code_simp

lemma bracketed_declaration_scan:
  "functions_acc (scan_lines ul cx scan_init [''[Obsolete] void Reset() { } // see [1]'']) = []"
  by code_simp

theorem bracketed_declaration_gives_no_record:
  "ParseFile (\<lambda>s. s) example_paths (Inr ''[Obsolete] void Reset() { } // see [1]'')
      ''Assets/Player.cs'' ''.'' = Inr [] \<and>
   length (filter pattern_line
             (SplitByte ''[Obsolete] void Reset() { } // see [1]'' (CHR 0x0A))) = 1"
  by (simp add: ParseFile_def parse_content_def Let_def bracketed_declaration_split
      bracketed_declaration_pattern bracketed_declaration_scan del: scan_lines.simps)

text \<open>
  Claim C4.  The records that \<open>ParseFile\<close> returns are, in order, those of the
  declaration lines of the file: the record at a position is made from the line at that
  position among the lines that the declaration pattern matches and that are neither
  enclosed in brackets nor comments.  Its signature is that line, trimmed; its function
  name is the third group of the match of that line; its \<open>IsUnityEvent\<close> holds exactly
  when that name is one of the event names of \<open>NewUnityParser\<close> (\<open>Update\<close> is one,
  \<open>Attack\<close> is not); and its \<open>IsCoroutine\<close> holds exactly when the second group of that
  match, the return type, has \<open>IEnumerator\<close> as a substring.
\<close>

theorem lifecycle_and_coroutine_flags:
  assumes "ParseFile ul fp rd filePath rootPath = Inr recs"
  shows "(\<exists>content.
            rd = Inr content \<and>
            length recs = length (filter declaration_line (SplitByte content (CHR 0x0A))) \<and>
            (\<forall>i < length recs. \<exists>m.
               FindStringSubmatch functionRegex
                 (filter declaration_line (SplitByte content (CHR 0x0A)) ! i) = Some m \<and>
               Signature (recs ! i) =
                 TrimSpace (filter declaration_line (SplitByte content (CHR 0x0A)) ! i) \<and>
               FuncName (recs ! i) = submatch m 3 \<and>
               (IsUnityEvent (recs ! i) \<longleftrightarrow> submatch m 3 \<in> unity_event_names) \<and>
               (IsCoroutine (recs ! i) \<longleftrightarrow> (\<exists>u v. submatch m 2 = u @ ''IEnumerator'' @ v)))) \<and>
         ''Update'' \<in> unity_event_names \<and> ''Attack'' \<notin> unity_event_names"
proof -
  from assms obtain content where rd: "rd = Inr content"
    and recs: "recs = parse_content ul fp content filePath rootPath"
    by (cases rd) (auto simp: ParseFile_def)
  define cx where "cx = \<lparr>cx_filePath = filePath,
                cx_relativePath = path_Rel fp rootPath filePath,
                cx_namespace = first_group namespaceRegex content,
                cx_class = first_group classRegex content\<rparr>"
  let ?ds = "filter declaration_line (SplitByte content (CHR 0x0A))"
  let ?P = "\<lambda>r l. \<exists>m st'. FindStringSubmatch functionRegex l = Some m \<and>
                         r = record_of ul cx st' l m"
  have r: "recs = functions_acc (scan_lines ul cx scan_init (SplitByte content (CHR 0x0A)))"
    using recs by (simp add: parse_content_def Let_def cx_def)
  from scan_lines_declarations[of ul cx scan_init "SplitByte content (CHR 0x0A)"] r
  have a: "list_all2 ?P recs ?ds" by (simp add: scan_init_def)
  then have len: "length recs = length ?ds" by (rule list_all2_lengthD)
  have each: "\<forall>i < length recs. \<exists>m.
               FindStringSubmatch functionRegex (?ds ! i) = Some m \<and>
               Signature (recs ! i) = TrimSpace (?ds ! i) \<and>
               FuncName (recs ! i) = submatch m 3 \<and>
               (IsUnityEvent (recs ! i) \<longleftrightarrow> submatch m 3 \<in> unity_event_names) \<and>
               (IsCoroutine (recs ! i) \<longleftrightarrow> (\<exists>u v. submatch m 2 = u @ ''IEnumerator'' @ v))"
  proof (intro allI impI)
    fix i assume i: "i < length recs"
    from list_all2_nthD[OF a i] obtain m st' where
      m: "FindStringSubmatch functionRegex (?ds ! i) = Some m" and
      e: "recs ! i = record_of ul cx st' (?ds ! i) m" by blast
    from e have "Signature (recs ! i) = TrimSpace (?ds ! i)"
      "FuncName (recs ! i) = submatch m 3"
      "IsUnityEvent (recs ! i) \<longleftrightarrow> submatch m 3 \<in> unity_event_names"
      "IsCoroutine (recs ! i) \<longleftrightarrow> (\<exists>u v. submatch m 2 = u @ ''IEnumerator'' @ v)"
      by (simp_all add: record_of_def unityEvents_names Contains_iff)
    with m show "\<exists>m.
               FindStringSubmatch functionRegex (?ds ! i) = Some m \<and>
               Signature (recs ! i) = TrimSpace (?ds ! i) \<and>
               FuncName (recs ! i) = submatch m 3 \<and>
               (IsUnityEvent (recs ! i) \<longleftrightarrow> submatch m 3 \<in> unity_event_names) \<and>
               (IsCoroutine (recs ! i) \<longleftrightarrow> (\<exists>u v. submatch m 2 = u @ ''IEnumerator'' @ v))"
      by blast
  qed
  have names: "''Update'' \<in> unity_event_names" "''Attack'' \<notin> unity_event_names"
    by (simp_all add: unity_event_names_def)
  from rd len each have "\<exists>content.
            rd = Inr content \<and>
            length recs = length (filter declaration_line (SplitByte content (CHR 0x0A))) \<and>
            (\<forall>i < length recs. \<exists>m.
               FindStringSubmatch functionRegex
                 (filter declaration_line (SplitByte content (CHR 0x0A)) ! i) = Some m \<and>
               Signature (recs ! i) =
                 TrimSpace (filter declaration_line (SplitByte content (CHR 0x0A)) ! i) \<and>
               FuncName (recs ! i) = submatch m 3 \<and>
               (IsUnityEvent (recs ! i) \<longleftrightarrow> submatch m 3 \<in> unity_event_names) \<and>
               (IsCoroutine (recs ! i) \<longleftrightarrow> (\<exists>u v. submatch m 2 = u @ ''IEnumerator'' @ v)))"
    by blast
  with names show ?thesis by (intro conjI)
qed

lemma fade_split:
  "SplitByte ('' void Fade()'' @ [CHR 0x0A] @ '' IEnumerator Fade(float t)'') (CHR 0x0A)
     = ['' void Fade()'', '' IEnumerator Fade(float t)'']"
  by code_simp

lemma fade_declarations:
  "filter declaration_line ['' void Fade()'', '' IEnumerator Fade(float t)'']
     = ['' void Fade()'', '' IEnumerator Fade(float t)'']"
  by code_simp

lemma fade_scan:
  "map (\<lambda>r. (Signature r, FuncName r, IsUnityEvent r, IsCoroutine r))
     (functions_acc (scan_lines ul cx scan_init
        ['' void Fade()'', '' IEnumerator Fade(float t)'']))
   = [(''void Fade()'', ''Fade'', False, False),
      (''IEnumerator Fade(float t)'', ''Fade'', False, True)]"
  by code_simp

lemma fade_parse:
  "map (\<lambda>r. (Signature r, FuncName r, IsUnityEvent r, IsCoroutine r))
     (parse_content ul fp ('' void Fade()'' @ [CHR 0x0A] @ '' IEnumerator Fade(float t)'')
        filePath rootPath)
   = [(''void Fade()'', ''Fade'', False, False),
      (''IEnumerator Fade(float t)'', ''Fade'', False, True)]"
  unfolding parse_content_def Let_def fade_split by (rule fade_scan)

theorem lifecycle_and_coroutine_flags_witness:
  "(\<exists>m. FindStringSubmatch functionRegex '' IEnumerator Fade(float t)'' = Some m \<and>
        Signature (parse_content (\<lambda>s. s) example_paths
                     ('' void Fade()'' @ [CHR 0x0A] @ '' IEnumerator Fade(float t)'')
                     ''Assets/Fader.cs'' ''.'' ! 1)
          = TrimSpace '' IEnumerator Fade(float t)'' \<and>
        FuncName (parse_content (\<lambda>s. s) example_paths
                     ('' void Fade()'' @ [CHR 0x0A] @ '' IEnumerator Fade(float t)'')
                     ''Assets/Fader.cs'' ''.'' ! 1) = submatch m 3 \<and>
        (IsUnityEvent (parse_content (\<lambda>s. s) example_paths
                     ('' void Fade()'' @ [CHR 0x0A] @ '' IEnumerator Fade(float t)'')
                     ''Assets/Fader.cs'' ''.'' ! 1) \<longleftrightarrow> submatch m 3 \<in> unity_event_names) \<and>
        (IsCoroutine (parse_content (\<lambda>s. s) example_paths
                     ('' void Fade()'' @ [CHR 0x0A] @ '' IEnumerator Fade(float t)'')
                     ''Assets/Fader.cs'' ''.'' ! 1)
           \<longleftrightarrow> (\<exists>u v. submatch m 2 = u @ ''IEnumerator'' @ v))) \<and>
   map (\<lambda>r. (Signature r, FuncName r, IsUnityEvent r, IsCoroutine r))
     (parse_content (\<lambda>s. s) example_paths
        ('' void Fade()'' @ [CHR 0x0A] @ '' IEnumerator Fade(float t)'')
        ''Assets/Fader.cs'' ''.'')
   = [(''void Fade()'', ''Fade'', False, False),
      (''IEnumerator Fade(float t)'', ''Fade'', False, True)]"
proof -
  let ?text = "'' void Fade()'' @ [CHR 0x0A] @ '' IEnumerator Fade(float t)''"
  let ?recs = "parse_content (\<lambda>s. s) example_paths ?text ''Assets/Fader.cs'' ''.''"
  have p: "ParseFile (\<lambda>s. s) example_paths (Inr ?text) ''Assets/Fader.cs'' ''.'' = Inr ?recs"
    by (simp add: ParseFile_def)
  have len: "length ?recs = 2"
    using arg_cong[OF fade_parse[of "\<lambda>s. s" example_paths "''Assets/Fader.cs''" "''.''"],
                   of length] by simp
  have ds: "filter declaration_line (SplitByte ?text (CHR 0x0A)) ! 1
              = '' IEnumerator Fade(float t)''"
    unfolding fade_split fade_declarations by simp
  from lifecycle_and_coroutine_flags[OF p, THEN conjunct1] obtain content where
    c: "(Inr ?text :: error + string) = Inr content" and
    e: "\<forall>i < length ?recs. \<exists>m.
               FindStringSubmatch functionRegex
                 (filter declaration_line (SplitByte content (CHR 0x0A)) ! i) = Some m \<and>
               Signature (?recs ! i) =
                 TrimSpace (filter declaration_line (SplitByte content (CHR 0x0A)) ! i) \<and>
               FuncName (?recs ! i) = submatch m 3 \<and>
               (IsUnityEvent (?recs ! i) \<longleftrightarrow> submatch m 3 \<in> unity_event_names) \<and>
               (IsCoroutine (?recs ! i) \<longleftrightarrow> (\<exists>u v. submatch m 2 = u @ ''IEnumerator'' @ v))"
    by blast
  from c have ct: "content = ?text" by simp
  have one: "1 < length ?recs" using len by simp
  from e[THEN spec, THEN mp, OF one] have a: "\<exists>m.
        FindStringSubmatch functionRegex '' IEnumerator Fade(float t)'' = Some m \<and>
        Signature (?recs ! 1) = TrimSpace '' IEnumerator Fade(float t)'' \<and>
        FuncName (?recs ! 1) = submatch m 3 \<and>
        (IsUnityEvent (?recs ! 1) \<longleftrightarrow> submatch m 3 \<in> unity_event_names) \<and>
        (IsCoroutine (?recs ! 1) \<longleftrightarrow> (\<exists>u v. submatch m 2 = u @ ''IEnumerator'' @ v))"
    unfolding ct ds .
  show ?thesis by (intro conjI a fade_parse)
qed

subsection \<open>The search at a shifted position\<close>

lemma functionRegex_parts:
  "functionRegex = Seq Bol (Seq (Star (Cls cls_s)) functionRegex_body)"
  by (simp add: functionRegex_def functionRegex_body_def)

lemma functionRegex_body_bol_free: "bol_free functionRegex_body"
  by (simp add: functionRegex_body_def Plus_def Chr_def)

lemma rmatch_map_option:
  "rmatch r pre s c (\<lambda>p s' c'. map_option f (k p s' c')) = map_option f (rmatch r pre s c k)"
proof (induction r pre s c k rule: rmatch.induct)
  case (1 P pre s c k)
  show ?case by (cases s) (simp_all add: rmatch.simps(1))
next
  case (2 pre s c k)
  show ?case by (simp add: rmatch.simps(2))
next
  case (3 pre s c k)
  show ?case by (simp add: rmatch.simps(3))
next
  case (4 a b pre s c k)
  show ?case by (simp add: rmatch.simps(4) "4.IH"(1) "4.IH"(2))
next
  case (5 a b pre s c k)
  show ?case
  proof (cases "rmatch a pre s c k")
    case None
    with "5.IH"(1) "5.IH"(2)[OF None] show ?thesis by (simp add: rmatch.simps(5))
  next
    case (Some y)
    with "5.IH"(1) show ?thesis by (simp add: rmatch.simps(5))
  qed
next
  case (6 r pre s c k)
  let ?k = "\<lambda>pre' s' c'. if length s' < length s then rmatch (Star r) pre' s' c' k else None"
  have inner: "(\<lambda>pre' s' c'. if length s' < length s
                  then rmatch (Star r) pre' s' c' (\<lambda>p s' c'. map_option f (k p s' c')) else None)
             = (\<lambda>pre' s' c'. map_option f (?k pre' s' c'))"
    by (intro ext) (simp add: "6.IH"(1))
  have "rmatch (Star r) pre s c (\<lambda>p s' c'. map_option f (k p s' c')) =
        (case rmatch r pre s c (\<lambda>pre' s' c'. map_option f (?k pre' s' c')) of
           Some m \<Rightarrow> Some m | None \<Rightarrow> map_option f (k pre s c))"
    by (subst rmatch.simps(6)) (simp only: inner)
  also have "\<dots> = (case map_option f (rmatch r pre s c ?k) of
           Some m \<Rightarrow> Some m | None \<Rightarrow> map_option f (k pre s c))"
    by (simp only: "6.IH"(2))
  also have "\<dots> = map_option f (rmatch (Star r) pre s c k)"
    by (subst (2) rmatch.simps(6)) (cases "rmatch r pre s c ?k"; simp)
  finally show ?case .
next
  case (7 i r pre s c k)
  show ?case by (simp add: rmatch.simps(7) "7.IH")
qed

lemma rmatch_shift:
  "bol_free r \<Longrightarrow> pre = v @ q \<Longrightarrow> (\<And>u s' c'. k (u @ q) s' c' = k2 u s' c') \<Longrightarrow>
   rmatch r pre s c k = rmatch r v s c k2"
proof (induction r pre s c k arbitrary: v k2 rule: rmatch.induct)
  case (1 P pre s c k)
  from "1.prems"(3)[of "x # v" for x] "1.prems"(2)
  show ?case by (cases s) (simp_all add: rmatch.simps(1))
next
  case (2 pre s c k)
  from "2.prems"(3)[of v] "2.prems"(2) show ?case by (simp add: rmatch.simps(2))
next
  case (3 pre s c k)
  from "3.prems"(1) show ?case by simp
next
  case (4 a b pre s c k)
  from "4.prems"(1) have fa: "bol_free a" and fb: "bol_free b" by simp_all
  have inner: "\<And>u s' c'. rmatch b (u @ q) s' c' k = rmatch b u s' c' k2"
    by (rule "4.IH"(1)[OF fb refl "4.prems"(3)])
  have "rmatch a pre s c (\<lambda>pre' s' c'. rmatch b pre' s' c' k)
          = rmatch a v s c (\<lambda>pre' s' c'. rmatch b pre' s' c' k2)"
    by (rule "4.IH"(2)[OF fa "4.prems"(2)]) (rule inner)
  then show ?case by (simp add: rmatch.simps(4))
next
  case (5 a b pre s c k)
  from "5.prems"(1) have fa: "bol_free a" and fb: "bol_free b" by simp_all
  have ea: "rmatch a pre s c k = rmatch a v s c k2"
    by (rule "5.IH"(1)[OF fa "5.prems"(2) "5.prems"(3)])
  show ?case
  proof (cases "rmatch a pre s c k")
    case None
    have "rmatch b pre s c k = rmatch b v s c k2"
      by (rule "5.IH"(2)[OF None fb "5.prems"(2) "5.prems"(3)])
    moreover from None ea have "rmatch a v s c k2 = None" by simp
    ultimately show ?thesis by (simp add: rmatch.simps(5) None)
  next
    case (Some y)
    with ea have e2: "rmatch a v s c k2 = Some y" by simp
    show ?thesis by (simp add: rmatch.simps(5) Some e2)
  qed
next
  case (6 r pre s c k)
  from "6.prems"(1) have fr: "bol_free r" by simp
  let ?k = "\<lambda>pre' s' c'. if length s' < length s then rmatch (Star r) pre' s' c' k else None"
  let ?k2 = "\<lambda>pre' s' c'. if length s' < length s then rmatch (Star r) pre' s' c' k2 else None"
  have inner: "\<And>u s' c'. ?k (u @ q) s' c' = ?k2 u s' c'"
  proof -
    fix u s' c'
    show "?k (u @ q) s' c' = ?k2 u s' c'"
    proof (cases "length s' < length s")
      case True
      from "6.IH"(1)[OF True "6.prems"(1) refl "6.prems"(3), of u c'] True
      show ?thesis by simp
    next
      case False
      then show ?thesis by simp
    qed
  qed
  have e1: "rmatch r pre s c ?k = rmatch r v s c ?k2"
    by (rule "6.IH"(2)[OF fr "6.prems"(2)]) (rule inner)
  have e2: "k pre s c = k2 v s c" using "6.prems"(2) "6.prems"(3)[of v] by simp
  have L: "rmatch (Star r) pre s c k =
             (case rmatch r pre s c ?k of Some m \<Rightarrow> Some m | None \<Rightarrow> k pre s c)"
    by (rule rmatch.simps(6))
  have R: "rmatch (Star r) v s c k2 =
             (case rmatch r v s c ?k2 of Some m \<Rightarrow> Some m | None \<Rightarrow> k2 v s c)"
    by (rule rmatch.simps(6))
  show ?case by (simp only: L R e1 e2)
next
  case (7 i r pre s c k)
  from "7.prems"(1) have fr: "bol_free r" by simp
  have "rmatch r pre s c
          (\<lambda>pre' s' c'. k pre' s' (c'(i \<mapsto> rev (take (length pre' - length pre) pre'))))
        = rmatch r v s c
          (\<lambda>pre' s' c'. k2 pre' s' (c'(i \<mapsto> rev (take (length pre' - length v) pre'))))"
  proof (rule "7.IH"[OF fr "7.prems"(2)])
    fix u s' c'
    have t: "rev (take (length (u @ q) - length pre) (u @ q))
               = rev (take (length u - length v) u)"
      using "7.prems"(2) by simp
    show "k (u @ q) s' (c'(i \<mapsto> rev (take (length (u @ q) - length pre) (u @ q))))
          = k2 u s' (c'(i \<mapsto> rev (take (length u - length v) u)))"
      unfolding t by (rule "7.prems"(3))
  qed
  then show ?case by (simp add: rmatch.simps(7))
qed

lemma star_last:
  assumes x: "P x" and w: "\<forall>y \<in> set w. P y" and s: "s \<noteq> [] \<and> \<not> P (hd s)"
    and miss: "k (x # rev w @ pre) s c = None"
    and hit: "k (rev w @ pre) (x # s) c = Some m"
  shows "rmatch (Star (Cls P)) pre (w @ x # s) c k = Some m"
  using w miss hit
proof (induction w arbitrary: pre)
  case Nil
  from s obtain y ys where ys: "s = y # ys" and ny: "\<not> P y" by (cases s) auto
  have "rmatch (Star (Cls P)) (x # pre) s c k = None"
    using ny Nil.prems(2) by (simp add: ys rmatch.simps(6) rmatch.simps(1))
  with x Nil.prems(3) show ?case by (simp add: rmatch.simps(6) rmatch.simps(1))
next
  case (Cons y w)
  from Cons.prems(1) have y: "P y" and w': "\<forall>z \<in> set w. P z" by simp_all
  have "rmatch (Star (Cls P)) (y # pre) (w @ x # s) c k = Some m"
    using Cons.IH[OF w', of "y # pre"] Cons.prems(2) Cons.prems(3) by simp
  with y show ?case by (simp add: rmatch.simps(6) rmatch.simps(1))
qed

subsection \<open>The first scenario\<close>

lemma scenario_A_split:
  "SplitByte (''/// Moves the player.'' @ [CHR 0x0A] @ d) (CHR 0x0A)
     = ''/// Moves the player.'' # SplitByte d (CHR 0x0A)"
  by (simp split: list.splits add: SplitByte_nonempty)

lemma scenario_A_split_column0:
  "SplitByte ''void MovePlayer() { }'' (CHR 0x0A) = [''void MovePlayer() { }'']"
  by code_simp

lemma scenario_A_scan_public:
  "map (\<lambda>r. (FuncName r, Comments r, take 2 (Keywords r)))
     (functions_acc (scan_lines ul cx scan_init
        [''/// Moves the player.'', ''public void MovePlayer() { }'']))
   = [(''MovePlayer'', [''Moves the player.''], [''move'', ''player''])]"
  by code_simp

lemma scenario_A_scan_column0:
  "functions_acc (scan_lines ul cx scan_init
        [''/// Moves the player.'', ''void MovePlayer() { }'']) = []"
  by code_simp

lemma map_singleton: "map f xs = [y] \<Longrightarrow> \<exists>x. xs = [x] \<and> f x = y"
  by (cases xs) auto

lemma body_misses_at_void:
  "rmatch functionRegex_body pre ''void MovePlayer() { }'' c
     (k :: string \<Rightarrow> string \<Rightarrow> caps \<Rightarrow> (string option \<times> string option) option) = None"
  by code_simp

lemma body_hits_after_space:
  "rmatch functionRegex_body [] (CHR '' '' # ''void MovePlayer() { }'') Map.empty
     (\<lambda>p s' c'. Some (c' 2, c' 3)) = Some (Some ''void'', Some ''MovePlayer'')"
  by code_simp

lemma body_hits_after_tab:
  "rmatch functionRegex_body [] (CHR 0x09 # ''void MovePlayer() { }'') Map.empty
     (\<lambda>p s' c'. Some (c' 2, c' 3)) = Some (Some ''void'', Some ''MovePlayer'')"
  by code_simp

lemma find_from_first: "match_here r pre s = Some m \<Longrightarrow> find_from r pre s = Some m"
  by (cases s) simp_all

lemma indented_match:
  assumes ne: "w \<noteq> []" and sp: "set w \<subseteq> {CHR '' '', CHR 0x09}"
  shows "\<exists>m. FindStringSubmatch functionRegex (w @ ''void MovePlayer() { }'') = Some m \<and>
             submatch m 2 = ''void'' \<and> submatch m 3 = ''MovePlayer''"
proof -
  let ?d = "''void MovePlayer() { }''"
  let ?kp = "\<lambda>(p::string) (s'::string) (c'::caps). Some (c' 2, c' 3)"
  let ?K = "\<lambda>p s' c'. rmatch functionRegex_body p s' c' ?kp"
  from ne obtain w' x where w: "w = w' @ [x]" by (cases w rule: rev_cases) auto
  from sp w have x: "x = CHR '' '' \<or> x = CHR 0x09" and w': "set w' \<subseteq> {CHR '' '', CHR 0x09}"
    by auto
  have sx: "cls_s x" using x by (auto simp: cls_s_def)
  have sw: "\<forall>y \<in> set w'. cls_s y" using w' by (auto simp: cls_s_def)
  have d: "?d \<noteq> [] \<and> \<not> cls_s (hd ?d)" by code_simp
  have miss: "?K (x # rev w' @ []) ?d Map.empty = None" by (rule body_misses_at_void)
  have "rmatch functionRegex_body (rev w') (x # ?d) Map.empty ?kp
          = rmatch functionRegex_body [] (x # ?d) Map.empty ?kp"
    by (rule rmatch_shift[OF functionRegex_body_bol_free]) simp_all
  also have "\<dots> = Some (Some ''void'', Some ''MovePlayer'')"
    using x body_hits_after_space body_hits_after_tab by auto
  finally have hit: "?K (rev w' @ []) (x # ?d) Map.empty = Some (Some ''void'', Some ''MovePlayer'')"
    by simp
  have star: "rmatch (Star (Cls cls_s)) [] (w' @ x # ?d) Map.empty ?K
                = Some (Some ''void'', Some ''MovePlayer'')"
    by (rule star_last[of cls_s x w' "''void MovePlayer() { }''" ?K "[]" Map.empty
                          "(Some ''void'', Some ''MovePlayer'')", OF sx sw d miss hit])
  have whole: "rmatch functionRegex [] (w @ ?d) Map.empty ?kp
                 = Some (Some ''void'', Some ''MovePlayer'')"
    unfolding functionRegex_parts using star by (simp add: rmatch.simps(3) rmatch.simps(4) w)
  have "map_option (\<lambda>m. (m_groups m 2, m_groups m 3)) (match_here functionRegex [] (w @ ?d))
          = rmatch functionRegex [] (w @ ?d) Map.empty ?kp"
    unfolding match_here_def by (subst rmatch_map_option[symmetric]) simp
  with whole obtain m where m: "match_here functionRegex [] (w @ ?d) = Some m"
    and g: "m_groups m 2 = Some ''void''" "m_groups m 3 = Some ''MovePlayer''"
    by (cases "match_here functionRegex [] (w @ ?d)") auto
  from find_from_first[OF m] have "FindStringSubmatch functionRegex (w @ ?d) = Some m"
    by (simp add: FindStringSubmatch_def)
  moreover from g have "submatch m 2 = ''void''" "submatch m 3 = ''MovePlayer''"
    by (simp_all add: submatch_def)
  ultimately show ?thesis by blast
qed

lemma space_width_space: "space_width (CHR '' '' # s) = 1"
  by (simp add: space_width_def space_encodings_def HasPrefix_def)

lemma space_width_tab: "space_width (CHR 0x09 # s) = 1"
  by (simp add: space_width_def space_encodings_def HasPrefix_def)

lemma space_width_indent:
  "x = CHR '' '' \<or> x = CHR 0x09 \<Longrightarrow> space_width (x # s) = 1"
  using space_width_space space_width_tab by blast

lemma TrimLeftSpace_indent:
  "set w \<subseteq> {CHR '' '', CHR 0x09} \<Longrightarrow> TrimLeftSpace (w @ s) = TrimLeftSpace s"
proof (induction w)
  case Nil
  then show ?case by simp
next
  case (Cons x w)
  from Cons.prems have x: "x = CHR '' '' \<or> x = CHR 0x09" by auto
  have "TrimLeftSpace ((x # w) @ s) = TrimLeftSpace (w @ s)"
    by (subst TrimLeftSpace.simps) (simp add: space_width_indent[OF x])
  with Cons show ?case by simp
qed

lemma TrimSpace_declaration:
  "TrimSpace ''void MovePlayer() { }'' = ''void MovePlayer() { }''"
  by code_simp

lemma TrimSpace_indent:
  "set w \<subseteq> {CHR '' '', CHR 0x09} \<Longrightarrow>
   TrimSpace (w @ ''void MovePlayer() { }'') = ''void MovePlayer() { }''"
  using TrimSpace_declaration by (simp add: TrimSpace_def TrimLeftSpace_indent)

lemma indented_declaration_line:
  assumes ne: "w \<noteq> []" and sp: "set w \<subseteq> {CHR '' '', CHR 0x09}"
  shows "declaration_line (w @ ''void MovePlayer() { }'')"
proof -
  from indented_match[OF ne sp] have "pattern_line (w @ ''void MovePlayer() { }'')"
    by (auto simp: pattern_line_def)
  moreover have "\<not> HasPrefix ''void MovePlayer() { }'' ''[''"
    "\<not> HasPrefix ''void MovePlayer() { }'' ''//''" by code_simp+
  ultimately show ?thesis
    by (simp add: declaration_line_def bracket_line_def comment_line_def TrimSpace_indent[OF sp])
qed

lemma scenario_A_first_line:
  "scan_line ul cx scan_init ''/// Moves the player.''
     = \<lparr>functions_acc = [], currentComments = [''Moves the player.''],
        currentAttributes = []\<rparr>"
  by code_simp

lemma scenario_A_keywords:
  "take 2 (extractKeywords ul ''MovePlayer'' [''Moves the player.'']) = [''move'', ''player'']"
  by code_simp

lemma scenario_A_indented_scan:
  assumes ne: "w \<noteq> []" and sp: "set w \<subseteq> {CHR '' '', CHR 0x09}"
  shows "\<exists>r. functions_acc (scan_lines ul cx scan_init
                  [''/// Moves the player.'', w @ ''void MovePlayer() { }'']) = [r] \<and>
             FuncName r = ''MovePlayer'' \<and> Comments r = [''Moves the player.''] \<and>
             take 2 (Keywords r) = [''move'', ''player'']"
proof -
  let ?st = "\<lparr>functions_acc = [], currentComments = [''Moves the player.''],
              currentAttributes = []\<rparr>"
  let ?l = "w @ ''void MovePlayer() { }''"
  from scan_line_declaration[OF indented_declaration_line[OF ne sp], of ul cx ?st]
  obtain m where m: "FindStringSubmatch functionRegex ?l = Some m"
    and sl: "scan_line ul cx ?st ?l =
               \<lparr>functions_acc = functions_acc ?st @ [record_of ul cx ?st ?l m],
                currentComments = [], currentAttributes = []\<rparr>" by blast
  from indented_match[OF ne sp] m have g: "submatch m 3 = ''MovePlayer''" by auto
  have "functions_acc (scan_lines ul cx scan_init [''/// Moves the player.'', ?l])
          = [record_of ul cx ?st ?l m]"
    by (simp add: scenario_A_first_line sl)
  moreover have "FuncName (record_of ul cx ?st ?l m) = ''MovePlayer''"
    "Comments (record_of ul cx ?st ?l m) = [''Moves the player.'']"
    "take 2 (Keywords (record_of ul cx ?st ?l m)) = [''move'', ''player'']"
    by (simp_all add: record_of_def g scenario_A_keywords)
  ultimately show ?thesis by blast
qed

lemma scenario_A_parse:
  "CHR 0x0A \<notin> set d \<Longrightarrow>
   ParseFile ul fp (Inr (''/// Moves the player.'' @ [CHR 0x0A] @ d)) filePath rootPath
     = Inr (functions_acc (scan_lines ul
         \<lparr>cx_filePath = filePath,
           cx_relativePath = path_Rel fp rootPath filePath,
           cx_namespace = first_group namespaceRegex (''/// Moves the player.'' @ [CHR 0x0A] @ d),
           cx_class = first_group classRegex (''/// Moves the player.'' @ [CHR 0x0A] @ d)\<rparr>
         scan_init [''/// Moves the player.'', d]))"
  unfolding ParseFile_def parse_content_def Let_def scenario_A_split
  by (simp add: SplitByte_single del: scan_lines.simps)

text \<open>
  Claim C2, amended.  For a file whose text is the line \<open>/// Moves the player.\<close> directly
  above the declaration \<open>void MovePlayer() { }\<close>, the declaration indented by one or more
  spaces or tabs, or written after the modifier \<open>public\<close>, \<open>ParseFile\<close> returns exactly
  one record, with the function name \<open>MovePlayer\<close>, the comments \<open>[Moves the player.]\<close>
  and keywords that begin with \<open>move\<close>, \<open>player\<close>.  With \<open>void\<close> at the start of the line
  \<open>ParseFile\<close> returns no record: the pattern asks for at least one modifier or
  white-space byte before the return type.
\<close>

theorem scenario_A_indented_or_public:
  "(w \<noteq> [] \<and> set w \<subseteq> {CHR '' '', CHR 0x09} \<longrightarrow>
      (\<exists>r. ParseFile ul fp
              (Inr (''/// Moves the player.'' @ [CHR 0x0A] @ w @ ''void MovePlayer() { }''))
              filePath rootPath = Inr [r] \<and>
           FuncName r = ''MovePlayer'' \<and> Comments r = [''Moves the player.''] \<and>
           take 2 (Keywords r) = [''move'', ''player''])) \<and>
   (\<exists>r. ParseFile ul fp
           (Inr (''/// Moves the player.'' @ [CHR 0x0A] @ ''public void MovePlayer() { }''))
           filePath rootPath = Inr [r] \<and>
        FuncName r = ''MovePlayer'' \<and> Comments r = [''Moves the player.''] \<and>
        take 2 (Keywords r) = [''move'', ''player'']) \<and>
   ParseFile ul fp
     (Inr (''/// Moves the player.'' @ [CHR 0x0A] @ ''void MovePlayer() { }''))
     filePath rootPath = Inr []"
proof (intro conjI impI)
  assume a: "w \<noteq> [] \<and> set w \<subseteq> {CHR '' '', CHR 0x09}"
  then have ne: "w \<noteq> []" and sp: "set w \<subseteq> {CHR '' '', CHR 0x09}" by simp_all
  from sp have nl: "CHR 0x0A \<notin> set (w @ ''void MovePlayer() { }'')" by auto
  from scenario_A_indented_scan[OF ne sp] scenario_A_parse[OF nl]
  show "\<exists>r. ParseFile ul fp
              (Inr (''/// Moves the player.'' @ [CHR 0x0A] @ w @ ''void MovePlayer() { }''))
              filePath rootPath = Inr [r] \<and>
           FuncName r = ''MovePlayer'' \<and> Comments r = [''Moves the player.''] \<and>
           take 2 (Keywords r) = [''move'', ''player'']"
    by (simp del: scan_lines.simps)
next
  have nl: "CHR 0x0A \<notin> set ''public void MovePlayer() { }''" by simp
  let ?cx = "\<lparr>cx_filePath = filePath,
           cx_relativePath = path_Rel fp rootPath filePath,
           cx_namespace = first_group namespaceRegex
              (''/// Moves the player.'' @ [CHR 0x0A] @ ''public void MovePlayer() { }''),
           cx_class = first_group classRegex
              (''/// Moves the player.'' @ [CHR 0x0A] @ ''public void MovePlayer() { }'')\<rparr>"
  from map_singleton[OF scenario_A_scan_public[of ul ?cx]] obtain r where
    "functions_acc (scan_lines ul ?cx scan_init
        [''/// Moves the player.'', ''public void MovePlayer() { }'']) = [r]"
    "FuncName r = ''MovePlayer''" "Comments r = [''Moves the player.'']"
    "take 2 (Keywords r) = [''move'', ''player'']" by auto
  with scenario_A_parse[OF nl, of ul fp filePath rootPath]
  show "\<exists>r. ParseFile ul fp
           (Inr (''/// Moves the player.'' @ [CHR 0x0A] @ ''public void MovePlayer() { }''))
           filePath rootPath = Inr [r] \<and>
        FuncName r = ''MovePlayer'' \<and> Comments r = [''Moves the player.''] \<and>
        take 2 (Keywords r) = [''move'', ''player'']"
    by (simp del: scan_lines.simps)
next
  have nl: "CHR 0x0A \<notin> set ''void MovePlayer() { }''" by simp
  from scenario_A_parse[OF nl, of ul fp filePath rootPath]
  show "ParseFile ul fp
     (Inr (''/// Moves the player.'' @ [CHR 0x0A] @ ''void MovePlayer() { }''))
     filePath rootPath = Inr []"
    by (simp add: scenario_A_scan_column0 del: scan_lines.simps)
qed

theorem scenario_A_indented_or_public_witness:
  "(\<exists>r. ParseFile (\<lambda>s. s) example_paths
           (Inr (''/// Moves the player.'' @ [CHR 0x0A] @
                 [CHR 0x09, CHR '' '', CHR '' ''] @ ''void MovePlayer() { }''))
           ''Assets/Player.cs'' ''.'' = Inr [r] \<and>
        FuncName r = ''MovePlayer'' \<and> Comments r = [''Moves the player.''] \<and>
        take 2 (Keywords r) = [''move'', ''player''])"
proof -
  have h: "[CHR 0x09, CHR '' '', CHR '' ''] \<noteq> [] \<and>
           set [CHR 0x09, CHR '' '', CHR '' ''] \<subseteq> {CHR '' '', CHR 0x09}" by simp
  show ?thesis
    by (rule scenario_A_indented_or_public[THEN conjunct1, THEN mp, OF h])
qed

theorem scenario_A_at_column_0_gives_no_record:
  "ParseFile (\<lambda>s. s) example_paths
     (Inr (''/// Moves the player.'' @ [CHR 0x0A] @ ''void MovePlayer() { }''))
     ''Assets/Player.cs'' ''.'' = Inr []"
  unfolding ParseFile_def parse_content_def Let_def scenario_A_split scenario_A_split_column0
  by (simp add: scenario_A_scan_column0 del: scan_lines.simps)

subsection \<open>The walk\<close>

lemma visit_file:
  "visit ul fp pp path (File rd) None acc =
     (acc\<lparr>allFunctions := allFunctions acc @ file_records ul fp pp (path, rd),
          printed := printed acc @ file_warnings (path, rd)\<rparr>, None)"
  by (cases rd) (simp_all add: visit_def ParseFile_def file_records_def file_warnings_def)

lemma visit_dir: "visit ul fp pp path (Dir entries) None acc = (acc, None)"
  by (simp add: visit_def)

lemma visit_err: "visit ul fp pp path info (Some e) acc = (acc, Some e)"
  by (simp add: visit_def)

lemma scan_of_tree:
  "ScanUnityProject ul fp projectPath (Some node) =
     (case walk ul fp projectPath (path_Join fp projectPath ''Assets'') node
             \<lparr>allFunctions = [], printed = []\<rparr> of
        (acc, err) \<Rightarrow>
          \<lparr>scan_records = allFunctions acc, scan_err = err, scan_printed = printed acc\<rparr>)"
  by (simp add: ScanUnityProject_def)

lemma walk_visited:
  "walk ul fp pp path node acc =
     (acc\<lparr>allFunctions := allFunctions acc @
              concat (map (file_records ul fp pp) (visited fp path node)),
          printed := printed acc @ concat (map file_warnings (visited fp path node))\<rparr>,
      map_option OSError (first_failure node))"
  and
  "walk_names ul fp pp path entries acc =
     (acc\<lparr>allFunctions := allFunctions acc @
              concat (map (file_records ul fp pp) (visited_list fp path entries)),
          printed := printed acc @
              concat (map file_warnings (visited_list fp path entries))\<rparr>,
      map_option OSError (first_failure_list entries))"
proof (induction ul fp pp path node acc and ul fp pp path entries acc
       rule: walk_walk_names.induct)
  case (1 ul fp projectPath path rd acc)
  show ?case by (simp add: visit_file)
next
  case (2 ul fp projectPath path msg acc)
  show ?case by (simp add: visit_err)
next
  case (3 ul fp projectPath path msg acc)
  show ?case by (simp add: visit_err)
next
  case (4 ul fp projectPath path entries acc)
  have v: "(acc, None) = visit ul fp projectPath path (Dir entries) None acc"
    by (simp add: visit_dir)
  from "4.IH"[OF v refl] show ?case by (simp add: visit_dir)
next
  case (5 ul fp projectPath path acc)
  show ?case by simp
next
  case (6 ul fp projectPath path name node rest acc)
  let ?w = "walk ul fp projectPath (path_Join fp path name) node acc"
  let ?a = "acc\<lparr>allFunctions := allFunctions acc @
                 concat (map (file_records ul fp projectPath)
                           (visited fp (path_Join fp path name) node)),
             printed := printed acc @
                 concat (map file_warnings (visited fp (path_Join fp path name) node))\<rparr>"
  have w: "?w = (?a, map_option OSError (first_failure node))" by (rule "6.IH"(1))
  show ?case
  proof (cases "first_failure node")
    case (Some m)
    with w show ?thesis by simp
  next
    case None
    with w have w': "?w = (?a, None)" by simp
    from "6.IH"(2)[OF w'[symmetric] refl] None w' show ?thesis by simp
  qed
qed

lemma visited_without_failure:
  "first_failure node = None \<Longrightarrow> visited fp path node = files_under fp path node"
  "first_failure_list entries = None \<Longrightarrow>
     visited_list fp path entries = files_under_list fp path entries"
proof (induction fp path node and fp path entries rule: visited_visited_list.induct)
  case (6 fp path name node rest)
  from "6.prems" have n: "first_failure node = None" and r: "first_failure_list rest = None"
    by (auto split: option.splits)
  from "6.IH"(1)[OF n] "6.IH"(2)[OF n r] n show ?case by simp
qed simp_all

lemma scan_visited:
  "ScanUnityProject ul fp projectPath (Some node) =
     \<lparr>scan_records = concat (map (file_records ul fp projectPath)
                          (visited fp (path_Join fp projectPath ''Assets'') node)),
      scan_err = map_option OSError (first_failure node),
      scan_printed = concat (map file_warnings
                          (visited fp (path_Join fp projectPath ''Assets'') node))\<rparr>"
  by (simp add: scan_of_tree walk_visited(1))

lemma visited_prefix:
  "\<exists>later. files_under fp path node = visited fp path node @ later"
  "\<exists>later. files_under_list fp path entries = visited_list fp path entries @ later"
proof (induction fp path node and fp path entries rule: visited_visited_list.induct)
  case (6 fp path name node rest)
  show ?case
  proof (cases "first_failure node")
    case None
    from "6.IH"(2)[OF None] obtain later where
      "files_under_list fp path rest = visited_list fp path rest @ later" by blast
    with None visited_without_failure(1)[OF None, of fp "path_Join fp path name"]
    show ?thesis by simp
  next
    case (Some m)
    from "6.IH"(1) obtain later where
      "files_under fp (path_Join fp path name) node =
         visited fp (path_Join fp path name) node @ later" by blast
    with Some show ?thesis by simp
  qed
qed simp_all






text \<open>
  Claim C8.  A file with the \<open>.cs\<close> suffix that cannot be read makes the walk print one
  warning, in which the path of the file stands, add no record and go on without an
  error.  Over a tree in which every directory can be listed and every entry has its file
  information, the scan returns no error, the records of the readable \<open>.cs\<close> files in the
  order of the walk, and one warning for each unreadable one.  Where the walk meets a
  directory that cannot be listed or an entry without file information, it stops there:
  the scan returns that error, with the records and the warnings of the files reached
  before it, which are the first files of the tree in the order of the walk; the entries
  after the failing one are not visited.
\<close>

theorem file_failure_is_skipped_walk_failure_aborts:
  "(HasSuffix path ''.cs'' \<longrightarrow>
      visit ul fp projectPath path (File (Inl msg)) None acc =
        (acc\<lparr>printed := printed acc @ [warning_line path (OSError msg)]\<rparr>, None) \<and>
      file_records ul fp projectPath (path, Inl msg) = [] \<and>
      file_warnings (path, Inl msg) = [warning_line path (OSError msg)]) \<and>
   (\<exists>before after. warning_line path e = before @ path @ after) \<and>
   (first_failure node = None \<longrightarrow>
      scan_err (ScanUnityProject ul fp projectPath (Some node)) = None \<and>
      scan_records (ScanUnityProject ul fp projectPath (Some node)) =
        concat (map (file_records ul fp projectPath)
                  (files_under fp (path_Join fp projectPath ''Assets'') node)) \<and>
      scan_printed (ScanUnityProject ul fp projectPath (Some node)) =
        concat (map file_warnings (files_under fp (path_Join fp projectPath ''Assets'') node))) \<and>
   (\<forall>m. first_failure node = Some m \<longrightarrow>
      scan_err (ScanUnityProject ul fp projectPath (Some node)) = Some (OSError m) \<and>
      scan_records (ScanUnityProject ul fp projectPath (Some node)) =
        concat (map (file_records ul fp projectPath)
                  (visited fp (path_Join fp projectPath ''Assets'') node)) \<and>
      scan_printed (ScanUnityProject ul fp projectPath (Some node)) =
        concat (map file_warnings (visited fp (path_Join fp projectPath ''Assets'') node))) \<and>
   (first_failure failing \<noteq> None \<longrightarrow>
      visited_list fp dir ((name, failing) # rest) =
        visited fp (path_Join fp dir name) failing) \<and>
   (\<exists>later. files_under fp dir node = visited fp dir node @ later)"
proof (intro conjI impI allI)
  assume "HasSuffix path ''.cs''"
  then show "visit ul fp projectPath path (File (Inl msg)) None acc =
        (acc\<lparr>printed := printed acc @ [warning_line path (OSError msg)]\<rparr>, None)"
    by (simp add: visit_def ParseFile_def)
next
  show "file_records ul fp projectPath (path, Inl msg) = []"
    by (simp add: file_records_def)
next
  assume "HasSuffix path ''.cs''"
  then show "file_warnings (path, Inl msg) = [warning_line path (OSError msg)]"
    by (simp add: file_warnings_def)
next
  show "\<exists>before after. warning_line path e = before @ path @ after"
    unfolding warning_line_def by blast
next
  assume f: "first_failure node = None"
  then show "scan_err (ScanUnityProject ul fp projectPath (Some node)) = None"
    by (simp add: scan_visited)
  from f show "scan_records (ScanUnityProject ul fp projectPath (Some node)) =
        concat (map (file_records ul fp projectPath)
                  (files_under fp (path_Join fp projectPath ''Assets'') node))"
    by (simp add: scan_visited visited_without_failure(1))
  from f show "scan_printed (ScanUnityProject ul fp projectPath (Some node)) =
        concat (map file_warnings (files_under fp (path_Join fp projectPath ''Assets'') node))"
    by (simp add: scan_visited visited_without_failure(1))
next
  fix m assume "first_failure node = Some m"
  then show "scan_err (ScanUnityProject ul fp projectPath (Some node)) = Some (OSError m)"
    by (simp add: scan_visited)
next
  show "scan_records (ScanUnityProject ul fp projectPath (Some node)) =
        concat (map (file_records ul fp projectPath)
                  (visited fp (path_Join fp projectPath ''Assets'') node))"
    by (simp add: scan_visited)
next
  show "scan_printed (ScanUnityProject ul fp projectPath (Some node)) =
        concat (map file_warnings (visited fp (path_Join fp projectPath ''Assets'') node))"
    by (simp add: scan_visited)
next
  assume "first_failure failing \<noteq> None"
  then show "visited_list fp dir ((name, failing) # rest) =
        visited fp (path_Join fp dir name) failing" by auto
next
  show "\<exists>later. files_under fp dir node = visited fp dir node @ later"
    by (rule visited_prefix(1))
qed

lemma example_tree_records:
  "map FuncName (scan_records (ScanUnityProject (\<lambda>s. s) example_paths ''P''
     (Some (Dir [(''A.cs'', File (Inr '' a b()'')),
                 (''B.cs'', File (Inl ''permission denied'')),
                 (''C.cs'', File (Inr '' c d()''))]))))
   = [''b'', ''d'']"
  by code_simp

lemma example_tree_files:
  "files_under example_paths (path_Join example_paths ''P'' ''Assets'')
     (Dir [(''A.cs'', File (Inr '' a b()'')),
           (''B.cs'', File (Inl ''permission denied'')),
           (''C.cs'', File (Inr '' c d()''))])
   = [(''P/Assets/A.cs'', Inr '' a b()''), (''P/Assets/B.cs'', Inl ''permission denied''),
      (''P/Assets/C.cs'', Inr '' c d()'')]"
  by (simp add: example_paths_def)

lemma example_failing_tree_visited:
  "visited example_paths (path_Join example_paths ''P'' ''Assets'')
     (Dir [(''A.cs'', File (Inr '' a b()'')),
           (''Sub'', DirUnreadable ''permission denied''),
           (''C.cs'', File (Inr '' c d()''))])
   = [(''P/Assets/A.cs'', Inr '' a b()'')]"
  by (simp add: example_paths_def)

lemma example_first_file_records:
  "map FuncName (file_records (\<lambda>s. s) example_paths ''P'' (''P/Assets/A.cs'', Inr '' a b()''))
     = [''b'']"
  by code_simp

theorem file_failure_is_skipped_walk_failure_aborts_witness:
  "scan_err (ScanUnityProject (\<lambda>s. s) example_paths ''P''
     (Some (Dir [(''A.cs'', File (Inr '' a b()'')),
                 (''B.cs'', File (Inl ''permission denied'')),
                 (''C.cs'', File (Inr '' c d()''))]))) = None \<and>
   scan_printed (ScanUnityProject (\<lambda>s. s) example_paths ''P''
     (Some (Dir [(''A.cs'', File (Inr '' a b()'')),
                 (''B.cs'', File (Inl ''permission denied'')),
                 (''C.cs'', File (Inr '' c d()''))])))
     = [warning_line ''P/Assets/B.cs'' (OSError ''permission denied'')] \<and>
   map FuncName (scan_records (ScanUnityProject (\<lambda>s. s) example_paths ''P''
     (Some (Dir [(''A.cs'', File (Inr '' a b()'')),
                 (''B.cs'', File (Inl ''permission denied'')),
                 (''C.cs'', File (Inr '' c d()''))])))) = [''b'', ''d''] \<and>
   scan_err (ScanUnityProject (\<lambda>s. s) example_paths ''P''
     (Some (Dir [(''A.cs'', File (Inr '' a b()'')),
                 (''Sub'', DirUnreadable ''permission denied''),
                 (''C.cs'', File (Inr '' c d()''))]))) = Some (OSError ''permission denied'') \<and>
   map FuncName (scan_records (ScanUnityProject (\<lambda>s. s) example_paths ''P''
     (Some (Dir [(''A.cs'', File (Inr '' a b()'')),
                 (''Sub'', DirUnreadable ''permission denied''),
                 (''C.cs'', File (Inr '' c d()''))])))) = [''b''] \<and>
   scan_printed (ScanUnityProject (\<lambda>s. s) example_paths ''P''
     (Some (Dir [(''A.cs'', File (Inr '' a b()'')),
                 (''Sub'', DirUnreadable ''permission denied''),
                 (''C.cs'', File (Inr '' c d()''))]))) = []"
proof -
  let ?t = "Dir [(''A.cs'', File (Inr '' a b()'')),
                 (''B.cs'', File (Inl ''permission denied'')),
                 (''C.cs'', File (Inr '' c d()''))]"
  let ?u = "Dir [(''A.cs'', File (Inr '' a b()'')),
                 (''Sub'', DirUnreadable ''permission denied''),
                 (''C.cs'', File (Inr '' c d()''))]"
  note T = file_failure_is_skipped_walk_failure_aborts
             [of "''P/Assets/B.cs''" "\<lambda>s. s" example_paths "''P''" "''permission denied''"
                 "\<lparr>allFunctions = [], printed = []\<rparr>" "OSError ''permission denied''" ?t]
  note U = file_failure_is_skipped_walk_failure_aborts
             [of "''P/Assets/B.cs''" "\<lambda>s. s" example_paths "''P''" "''permission denied''"
                 "\<lparr>allFunctions = [], printed = []\<rparr>" "OSError ''permission denied''" ?u]
  have ft: "first_failure ?t = None" by simp
  have fu: "first_failure ?u = Some ''permission denied''" by simp
  note T3 = T[THEN conjunct2, THEN conjunct2, THEN conjunct1, THEN mp, OF ft]
  note U4 = U[THEN conjunct2, THEN conjunct2, THEN conjunct2, THEN conjunct1,
              THEN spec, THEN mp, OF fu]
  have a: "scan_err (ScanUnityProject (\<lambda>s. s) example_paths ''P'' (Some ?t)) = None"
    by (rule T3[THEN conjunct1])
  have "scan_printed (ScanUnityProject (\<lambda>s. s) example_paths ''P'' (Some ?t)) =
        concat (map file_warnings
                  (files_under example_paths (path_Join example_paths ''P'' ''Assets'') ?t))"
    by (rule T3[THEN conjunct2, THEN conjunct2])
  then have b: "scan_printed (ScanUnityProject (\<lambda>s. s) example_paths ''P'' (Some ?t))
     = [warning_line ''P/Assets/B.cs'' (OSError ''permission denied'')]"
    unfolding example_tree_files by (simp add: file_warnings_def HasSuffix_def)
  have c: "scan_err (ScanUnityProject (\<lambda>s. s) example_paths ''P'' (Some ?u))
             = Some (OSError ''permission denied'')"
    by (rule U4[THEN conjunct1])
  have "scan_records (ScanUnityProject (\<lambda>s. s) example_paths ''P'' (Some ?u)) =
        concat (map (file_records (\<lambda>s. s) example_paths ''P'')
                  (visited example_paths (path_Join example_paths ''P'' ''Assets'') ?u))"
    by (rule U4[THEN conjunct2, THEN conjunct1])
  then have d: "map FuncName (scan_records
                  (ScanUnityProject (\<lambda>s. s) example_paths ''P'' (Some ?u))) = [''b'']"
    unfolding example_failing_tree_visited by (simp add: example_first_file_records)
  have "scan_printed (ScanUnityProject (\<lambda>s. s) example_paths ''P'' (Some ?u)) =
        concat (map file_warnings
                  (visited example_paths (path_Join example_paths ''P'' ''Assets'') ?u))"
    by (rule U4[THEN conjunct2, THEN conjunct2])
  then have e: "scan_printed (ScanUnityProject (\<lambda>s. s) example_paths ''P'' (Some ?u)) = []"
    unfolding example_failing_tree_visited by (simp add: file_warnings_def)
  show ?thesis by (intro conjI a b example_tree_records c d e)
qed

subsection \<open>The document\<close>

lemma map_get_set:
  "map_get (map_set m k v) k' = (if k' = k then v else map_get m k')"
  by (simp add: map_get_def map_set_def update_conv')

lemma map_keys_set: "set (map_keys (map_set m k v)) = insert k (set (map_keys m))"
  by (simp add: map_keys_def map_set_def dom_update)

lemma map_keys_distinct:
  "distinct (map_keys m) \<Longrightarrow> distinct (map_keys (map_set m k v))"
  unfolding map_keys_def map_set_def by (rule distinct_update)

lemma group_loop_get:
  "map_get (group_loop key fns m) k = map_get m k @ filter (\<lambda>fn. key fn = k) fns"
  by (induction fns arbitrary: m) (auto simp: map_get_set)

lemma group_loop_keys:
  "set (map_keys (group_loop key fns m)) = set (map_keys m) \<union> key ` set fns"
  by (induction fns arbitrary: m) (auto simp: map_keys_set)

lemma group_loop_distinct:
  "distinct (map_keys m) \<Longrightarrow> distinct (map_keys (group_loop key fns m))"
  by (induction fns arbitrary: m) (auto simp: map_keys_distinct)

lemma category_loop_group: "category_loop fns m = group_loop category_of fns m"
  by (induction fns arbitrary: m) auto

lemma class_loop_group: "class_loop fns m = group_loop class_label fns m"
  by (induction fns arbitrary: m) auto

lemma sorted_keys_of_group:
  "sort (map_keys (group_loop key fns [])) = sort (remdups (map key fns))"
proof (rule sorted_distinct_set_unique)
  show "sorted (sort (map_keys (group_loop key fns [])))" by simp
  show "sorted (sort (remdups (map key fns)))" by simp
  have "distinct (map_keys (group_loop key fns []))"
    by (rule group_loop_distinct) (simp add: map_keys_def)
  then show "distinct (sort (map_keys (group_loop key fns [])))" by simp
  show "distinct (sort (remdups (map key fns)))" by simp
  show "set (sort (map_keys (group_loop key fns []))) = set (sort (remdups (map key fns)))"
    using group_loop_keys[of key fns "[]"] by (simp add: map_keys_def)
qed

lemma categories_sorted:
  "sort (map_keys (category_loop fns [])) = sorted_categories fns"
  by (simp add: category_loop_group sorted_keys_of_group sorted_categories_def)

lemma class_names_sorted:
  "sort (map_keys (class_loop fns [])) = sorted_class_labels fns"
  by (simp add: class_loop_group sorted_keys_of_group sorted_class_labels_def)

lemma map_get_empty: "map_get [] k = []"
  by (simp add: map_get_def)

lemma category_map_get: "map_get (category_loop fns []) c = in_category fns c"
  by (simp add: category_loop_group group_loop_get in_category_def map_get_empty)

lemma class_map_get: "map_get (class_loop fns []) cn = in_class fns cn"
  by (simp add: class_loop_group group_loop_get in_class_def map_get_empty)

lemma nav_loop_eq:
  "nav_loop ul m cats sb = sb @ concat (map (\<lambda>c. nav_line ul c (map_get m c)) cats)"
  by (induction cats arbitrary: sb) auto

lemma attr_loop_app: "attr_loop attrs i (a @ b) = a @ attr_loop attrs i b"
  by (induction attrs arbitrary: i b) auto

lemma comment_loop_app: "comment_loop cs (a @ b) = a @ comment_loop cs b"
  by (induction cs arbitrary: b) auto

lemma if_app: "(if c then a @ x else a @ y) = a @ (if c then x else y)"
  by simp

lemma write_function_app: "write_function fn (a @ b) = a @ write_function fn b"
  unfolding write_function_def Let_def
  by (simp only: append_assoc attr_loop_app comment_loop_app if_app)

lemma write_function_eq: "write_function fn sb = sb @ write_function fn []"
  using write_function_app[of fn sb "[]"] by simp

lemma function_loop_eq:
  "function_loop fns sb = sb @ concat (map (\<lambda>fn. write_function fn []) fns)"
proof (induction fns arbitrary: sb)
  case Nil
  then show ?case by simp
next
  case (Cons fn fns)
  show ?case using Cons.IH[of "write_function fn sb"] write_function_eq[of fn sb] by simp
qed

lemma class_section_loop_eq:
  "class_section_loop (class_loop catFns []) names sb =
     sb @ concat (map (class_section catFns) names)"
proof (induction names arbitrary: sb)
  case Nil
  then show ?case by simp
next
  case (Cons cn names)
  show ?case
    by (simp add: Let_def Cons.IH function_loop_eq class_map_get class_section_def)
qed

lemma category_section_loop_eq:
  "category_section_loop (category_loop fns []) cats sb =
     sb @ concat (map (category_section fns) cats)"
proof (induction cats arbitrary: sb)
  case Nil
  then show ?case by simp
next
  case (Cons c cats)
  show ?case
    by (simp add: Let_def Cons.IH category_map_get class_names_sorted class_section_loop_eq
        category_section_def)
qed

lemma markdown_document_grouped: "markdown_document ul fns = grouped_document ul fns"
  unfolding markdown_document_def grouped_document_def Let_def
  by (simp add: categories_sorted nav_loop_eq category_section_loop_eq category_map_get)

lemma SplitByte_hd: "hd (SplitByte s c) = takeWhile (\<lambda>x. x \<noteq> c) s"
  by (induction s) (auto split: list.splits simp: SplitByte_nonempty)

lemma SplitByte_many: "c \<in> set s \<Longrightarrow> length (SplitByte s c) > 1"
proof (induction s)
  case Nil
  then show ?case by simp
next
  case (Cons x xs)
  show ?case
  proof (cases "x = c")
    case True
    then show ?thesis using SplitByte_nonempty[of xs c] by (cases "SplitByte xs c") auto
  next
    case False
    with Cons.prems have "c \<in> set xs" by simp
    from Cons.IH[OF this] False show ?thesis by (auto split: list.splits)
  qed
qed

lemma category_of_with_separator:
  assumes "CHR ''/'' \<in> set (RelativePath fn)"
  shows "category_of fn = takeWhile (\<lambda>c. c \<noteq> CHR ''/'') (RelativePath fn)"
proof -
  from SplitByte_many[OF assms] have l: "length (SplitByte (RelativePath fn) (CHR ''/'')) > 1" .
  then have "SplitByte (RelativePath fn) (CHR ''/'') ! 0 = hd (SplitByte (RelativePath fn) (CHR ''/''))"
    by (cases "SplitByte (RelativePath fn) (CHR ''/'')") auto
  with l show ?thesis by (simp add: category_of_def Let_def SplitByte_hd)
qed

lemma category_of_without_separator:
  "CHR ''/'' \<notin> set (RelativePath fn) \<Longrightarrow> category_of fn = other_category"
  by (simp add: category_of_def Let_def SplitByte_single)

lemma if_app_left: "(if c then a @ x else a) = a @ (if c then x else [])"
  by simp

lemma write_function_heading:
  "\<exists>tl. write_function fn sb = sb @ ''#### '' @ [CHR 0x60] @ FuncName fn @ [CHR 0x60] @ tl"
  unfolding write_function_def Let_def
  apply (simp only: append_assoc attr_loop_app comment_loop_app if_app if_app_left)
  apply (rule exI)
  apply (rule refl)
  done

lemma write_function_signature:
  "\<exists>a b. write_function fn sb =
      sb @ a @ [CHR 0x60, CHR 0x60, CHR 0x60] @ ''csharp'' @ [CHR 0x0A] @ Signature fn @
      [CHR 0x0A, CHR 0x60, CHR 0x60, CHR 0x60, CHR 0x0A, CHR 0x0A] @ b"
  unfolding write_function_def Let_def
  apply (simp only: append_assoc attr_loop_app comment_loop_app if_app if_app_left)
  apply (rule exI[of _ "''#### '' @ [CHR 0x60] @ FuncName fn @ [CHR 0x60] @ M @ [CHR 0x0A, CHR 0x0A] @ A"
                  for M A])
  apply (simp only: append_assoc)
  apply (rule exI)
  apply (rule refl)
  done

lemma class_head_label:
  "\<exists>tl. class_head className classFns =
      ''### '' @ [CHR 0xF0, CHR 0x9F, CHR 0x94, CHR 0xB8] @ '' '' @ [CHR 0xE7, CHR 0xB1, CHR 0xBB]
      @ '': '' @ [CHR 0x60] @ className @ [CHR 0x60, CHR 0x0A, CHR 0x0A] @ tl"
  unfolding class_head_def by (rule exI) (rule refl)

lemma class_head_file:
  "classFns \<noteq> [] \<Longrightarrow>
   \<exists>a. class_head className classFns =
      a @ [CHR 0x60] @ RelativePath (hd classFns) @ [CHR 0x60, CHR 0x0A, CHR 0x0A]"
  unfolding class_head_def
  by (cases classFns) simp_all

lemma category_head_label:
  "\<exists>tl. category_head category catFns =
      ''## '' @ [CHR 0xF0, CHR 0x9F, CHR 0x93, CHR 0x81] @ '' '' @ category
      @ [CHR 0x0A, CHR 0x0A] @ tl"
  unfolding category_head_def by (rule exI) (rule refl)

text \<open>
  Claim C9.  The document that \<open>GenerateUnityMarkdown\<close> writes is the grouped document:
  after the head and the navigation list, one section for each category present, the
  categories in sorted order; in a category one section for each class label present, the
  labels in sorted order; in a class the records of that category and class in the order
  of the input.  The category of a record is the part of its relative path before the
  first separator, and the catch-all category when the path has no separator; the class
  label is the class name, and the label for global functions when the name is empty.
  The section of a category begins with a heading that carries the category, the section
  of a class with a heading that carries the class label, and what is written for a
  record begins with a heading that carries its function name and holds its signature in
  a block of code.
\<close>

theorem markdown_groups_by_category_then_class:
  "markdown_document ul fns = grouped_document ul fns \<and>
   GenerateUnityMarkdown ul fns outputPath None disk
     = (None, disk(outputPath \<mapsto> grouped_document ul fns)) \<and>
   sorted (sorted_categories fns) \<and> distinct (sorted_categories fns) \<and>
   set (sorted_categories fns) = category_of ` set fns \<and>
   sorted (sorted_class_labels catFns) \<and> distinct (sorted_class_labels catFns) \<and>
   set (sorted_class_labels catFns) = class_label ` set catFns \<and>
   in_category fns c = filter (\<lambda>fn. category_of fn = c) fns \<and>
   in_class catFns cn = filter (\<lambda>fn. class_label fn = cn) catFns \<and>
   (CHR ''/'' \<in> set (RelativePath fn) \<longrightarrow>
      category_of fn = takeWhile (\<lambda>x. x \<noteq> CHR ''/'') (RelativePath fn)) \<and>
   (CHR ''/'' \<notin> set (RelativePath fn) \<longrightarrow> category_of fn = other_category) \<and>
   (ClassName fn = [] \<longrightarrow> class_label fn = global_functions) \<and>
   (ClassName fn \<noteq> [] \<longrightarrow> class_label fn = ClassName fn) \<and>
   (\<exists>tl. category_head c catFns =
      ''## '' @ [CHR 0xF0, CHR 0x9F, CHR 0x93, CHR 0x81] @ '' '' @ c @ [CHR 0x0A, CHR 0x0A] @ tl) \<and>
   (\<exists>tl. class_head cn classFns =
      ''### '' @ [CHR 0xF0, CHR 0x9F, CHR 0x94, CHR 0xB8] @ '' '' @ [CHR 0xE7, CHR 0xB1, CHR 0xBB]
      @ '': '' @ [CHR 0x60] @ cn @ [CHR 0x60, CHR 0x0A, CHR 0x0A] @ tl) \<and>
   (\<exists>tl. write_function fn sb =
      sb @ ''#### '' @ [CHR 0x60] @ FuncName fn @ [CHR 0x60] @ tl) \<and>
   (\<exists>a b. write_function fn sb =
      sb @ a @ [CHR 0x60, CHR 0x60, CHR 0x60] @ ''csharp'' @ [CHR 0x0A] @ Signature fn @
      [CHR 0x0A, CHR 0x60, CHR 0x60, CHR 0x60, CHR 0x0A, CHR 0x0A] @ b)"
proof (intro conjI impI)
  show "markdown_document ul fns = grouped_document ul fns"
    by (rule markdown_document_grouped)
  show "GenerateUnityMarkdown ul fns outputPath None disk
     = (None, disk(outputPath \<mapsto> grouped_document ul fns))"
    by (simp add: GenerateUnityMarkdown_def markdown_document_grouped)
  show "sorted (sorted_categories fns)" by (simp add: sorted_categories_def)
  show "distinct (sorted_categories fns)" by (simp add: sorted_categories_def)
  show "set (sorted_categories fns) = category_of ` set fns"
    by (simp add: sorted_categories_def)
  show "sorted (sorted_class_labels catFns)" by (simp add: sorted_class_labels_def)
  show "distinct (sorted_class_labels catFns)" by (simp add: sorted_class_labels_def)
  show "set (sorted_class_labels catFns) = class_label ` set catFns"
    by (simp add: sorted_class_labels_def)
  show "in_category fns c = filter (\<lambda>fn. category_of fn = c) fns"
    by (simp add: in_category_def)
  show "in_class catFns cn = filter (\<lambda>fn. class_label fn = cn) catFns"
    by (simp add: in_class_def)
  show "\<exists>tl. category_head c catFns =
      ''## '' @ [CHR 0xF0, CHR 0x9F, CHR 0x93, CHR 0x81] @ '' '' @ c @ [CHR 0x0A, CHR 0x0A] @ tl"
    by (rule category_head_label)
  show "\<exists>tl. class_head cn classFns =
      ''### '' @ [CHR 0xF0, CHR 0x9F, CHR 0x94, CHR 0xB8] @ '' '' @ [CHR 0xE7, CHR 0xB1, CHR 0xBB]
      @ '': '' @ [CHR 0x60] @ cn @ [CHR 0x60, CHR 0x0A, CHR 0x0A] @ tl"
    by (rule class_head_label)
  show "\<exists>tl. write_function fn sb =
      sb @ ''#### '' @ [CHR 0x60] @ FuncName fn @ [CHR 0x60] @ tl"
    by (rule write_function_heading)
  show "\<exists>a b. write_function fn sb =
      sb @ a @ [CHR 0x60, CHR 0x60, CHR 0x60] @ ''csharp'' @ [CHR 0x0A] @ Signature fn @
      [CHR 0x0A, CHR 0x60, CHR 0x60, CHR 0x60, CHR 0x0A, CHR 0x0A] @ b"
    by (rule write_function_signature)
next
  assume "CHR ''/'' \<in> set (RelativePath fn)"
  then show "category_of fn = takeWhile (\<lambda>x. x \<noteq> CHR ''/'') (RelativePath fn)"
    by (rule category_of_with_separator)
next
  assume "CHR ''/'' \<notin> set (RelativePath fn)"
  then show "category_of fn = other_category" by (rule category_of_without_separator)
next
  assume "ClassName fn = []"
  then show "class_label fn = global_functions" by (simp add: class_label_def)
next
  assume "ClassName fn \<noteq> []"
  then show "class_label fn = ClassName fn" by (simp add: class_label_def)
qed

lemma example_sorted_categories3:
  "sorted_categories [example_record_at_root, example_record_in_assets, example_record_attack]
     = [''Assets'', other_category]"
  by code_simp

lemma example_class_records:
  "in_class (in_category
       [example_record_at_root, example_record_in_assets, example_record_attack] ''Assets'')
     ''Player'' = [example_record_in_assets, example_record_attack]"
  by code_simp

lemma example_grouped_document:
  "grouped_document (\<lambda>s. s)
     [example_record_at_root, example_record_in_assets, example_record_attack]
   = doc_head [example_record_at_root, example_record_in_assets, example_record_attack]
     @ example_document_body @ doc_tail"
  by code_simp

theorem markdown_groups_by_category_then_class_witness:
  "category_of example_record_in_assets = ''Assets'' \<and>
   category_of example_record_at_root = other_category \<and>
   class_label example_record_at_root = global_functions \<and>
   class_label example_record_in_assets = ''Player'' \<and>
   sorted_categories [example_record_at_root, example_record_in_assets, example_record_attack]
     = [''Assets'', other_category] \<and>
   in_class (in_category
       [example_record_at_root, example_record_in_assets, example_record_attack] ''Assets'')
     ''Player'' = [example_record_in_assets, example_record_attack] \<and>
   markdown_document (\<lambda>s. s)
       [example_record_at_root, example_record_in_assets, example_record_attack]
     = doc_head [example_record_at_root, example_record_in_assets, example_record_attack]
       @ example_document_body @ doc_tail \<and>
   GenerateUnityMarkdown (\<lambda>s. s)
       [example_record_at_root, example_record_in_assets, example_record_attack]
       ''index.md'' None Map.empty
     = (None, [''index.md'' \<mapsto>
          doc_head [example_record_at_root, example_record_in_assets, example_record_attack]
          @ example_document_body @ doc_tail])"
proof -
  let ?fns = "[example_record_at_root, example_record_in_assets, example_record_attack]"
  note T = markdown_groups_by_category_then_class
             [of "\<lambda>s. s" ?fns "''index.md''" Map.empty "[]" "[]" "[]" example_record_in_assets]
  note U = markdown_groups_by_category_then_class
             [of "\<lambda>s. s" ?fns "''index.md''" Map.empty "[]" "[]" "[]" example_record_at_root]
  have s1: "CHR ''/'' \<in> set (RelativePath example_record_in_assets)"
    by (simp add: example_record_in_assets_def)
  have s2: "CHR ''/'' \<notin> set (RelativePath example_record_at_root)"
    by (simp add: example_record_at_root_def)
  have c1: "ClassName example_record_in_assets \<noteq> []"
    by (simp add: example_record_in_assets_def)
  have c2: "ClassName example_record_at_root = []"
    by (simp add: example_record_at_root_def)
  have "category_of example_record_in_assets
          = takeWhile (\<lambda>x. x \<noteq> CHR ''/'') (RelativePath example_record_in_assets)"
    by (rule T[THEN conjunct2, THEN conjunct2, THEN conjunct2, THEN conjunct2, THEN conjunct2,
               THEN conjunct2, THEN conjunct2, THEN conjunct2, THEN conjunct2, THEN conjunct2,
               THEN conjunct1, THEN mp, OF s1])
  then have a: "category_of example_record_in_assets = ''Assets''"
    by (simp add: example_record_in_assets_def)
  have b: "category_of example_record_at_root = other_category"
    by (rule U[THEN conjunct2, THEN conjunct2, THEN conjunct2, THEN conjunct2, THEN conjunct2,
               THEN conjunct2, THEN conjunct2, THEN conjunct2, THEN conjunct2, THEN conjunct2,
               THEN conjunct2, THEN conjunct1, THEN mp, OF s2])
  have c: "class_label example_record_at_root = global_functions"
    by (rule U[THEN conjunct2, THEN conjunct2, THEN conjunct2, THEN conjunct2, THEN conjunct2,
               THEN conjunct2, THEN conjunct2, THEN conjunct2, THEN conjunct2, THEN conjunct2,
               THEN conjunct2, THEN conjunct2, THEN conjunct1, THEN mp, OF c2])
  have "class_label example_record_in_assets = ClassName example_record_in_assets"
    by (rule T[THEN conjunct2, THEN conjunct2, THEN conjunct2, THEN conjunct2, THEN conjunct2,
               THEN conjunct2, THEN conjunct2, THEN conjunct2, THEN conjunct2, THEN conjunct2,
               THEN conjunct2, THEN conjunct2, THEN conjunct2, THEN conjunct1, THEN mp, OF c1])
  then have d: "class_label example_record_in_assets = ''Player''"
    by (simp add: example_record_in_assets_def)
  have e: "markdown_document (\<lambda>s. s) ?fns
             = doc_head ?fns @ example_document_body @ doc_tail"
    using T[THEN conjunct1] example_grouped_document by simp
  have f: "GenerateUnityMarkdown (\<lambda>s. s) ?fns ''index.md'' None Map.empty
     = (None, [''index.md'' \<mapsto> doc_head ?fns @ example_document_body @ doc_tail])"
    using T[THEN conjunct2, THEN conjunct1] example_grouped_document by simp
  show ?thesis by (intro conjI a b c d example_sorted_categories3 example_class_records e f)
qed


end
